theory Spec2Isabelle
  imports Main "HOL-Library.Word"
begin

unbundle bit_operations_syntax

section \<open>The operating system as seen by the program\<close>

text \<open>
  The program (src/code.cpp) talks to two I2C sensors through the Linux i2c-dev
  interface. Everything it does is a sequence of system calls on one file
  descriptor, plus text written to the two console streams. The model makes both
  explicit: a \<open>world\<close> holds the calls issued so far and the text printed so far,
  and the operating system is a function that answers the i-th call.
\<close>

type_synonym u8 = "8 word"
type_synonym i16 = "16 word"  \<comment> \<open>\<open>int16_t\<close>: a 16-bit word, read with \<open>sint\<close>\<close>

datatype syscall =
    SysOpen string              \<comment> \<open>\<open>open(dev, O_RDWR)\<close>\<close>
  | SysIoctlSlave int u8        \<comment> \<open>\<open>ioctl(fd, I2C_SLAVE, addr)\<close>\<close>
  | SysWrite int "u8 list"      \<comment> \<open>\<open>write(fd, buf, length buf)\<close>\<close>
  | SysRead int nat             \<comment> \<open>\<open>read(fd, &v, count)\<close>\<close>
  | SysUsleep nat               \<comment> \<open>\<open>usleep(microseconds)\<close>\<close>
  | SysClose int                \<comment> \<open>\<open>close(fd)\<close>\<close>

text \<open>
  What a call gives back: its return value (an \<open>int\<close> or \<open>ssize_t\<close> in the source,
  which only compares it with 0, 1 or 2 and passes the descriptor on, so that an
  unbounded integer stands for both), the byte a \<open>read\<close> stored in the buffer, and
  the text that \<open>strerror(errno)\<close> yields when the program prints the diagnostic
  of the call.
\<close>

record reply =
  ret :: int
  data :: u8
  errstr :: string

record world =
  kernel :: "nat \<Rightarrow> syscall \<Rightarrow> reply"
  trace :: "syscall list"
  cout :: string
  cerr :: string

text \<open>
  A routine either returns a value, or ends the process with an exit status
  (\<open>std::exit\<close>, or \<open>return\<close> from \<open>main\<close>), or is still inside the sample loop
  when the iterations allotted to the model are used up.
\<close>

datatype 'a result =
    Ret 'a world
  | Exit int world
  | OutOfFuel world

fun world_of :: "'a result \<Rightarrow> world" where
  "world_of (Ret x w) = w"
| "world_of (Exit c w) = w"
| "world_of (OutOfFuel w) = w"

definition seq :: "(world \<Rightarrow> 'a result) \<Rightarrow> ('a \<Rightarrow> world \<Rightarrow> 'b result) \<Rightarrow> world \<Rightarrow> 'b result" where
  "seq m f w = (case m w of Ret x w' \<Rightarrow> f x w' | Exit c w' \<Rightarrow> Exit c w' | OutOfFuel w' \<Rightarrow> OutOfFuel w')"

definition do_syscall :: "syscall \<Rightarrow> world \<Rightarrow> reply \<times> world" where
  "do_syscall c w = (kernel w (length (trace w)) c, w\<lparr>trace := trace w @ [c]\<rparr>)"

definition put_cout :: "string \<Rightarrow> world \<Rightarrow> unit result" where
  "put_cout s w = Ret () (w\<lparr>cout := cout w @ s\<rparr>)"

definition put_cerr :: "string \<Rightarrow> world \<Rightarrow> world" where
  "put_cerr s w = w\<lparr>cerr := cerr w @ s\<rparr>"

section \<open>Number formatting of the C++ streams\<close>

definition digit_char :: "nat \<Rightarrow> char" where
  "digit_char d = ''0123456789abcdef'' ! d"

fun digits_of :: "nat \<Rightarrow> nat \<Rightarrow> string" where
  "digits_of b n =
     (if b < 2 \<or> n < b then [digit_char n] else digits_of b (n div b) @ [digit_char (n mod b)])"

declare digits_of.simps [simp del]

text \<open>\<open>std::hex << int(x)\<close> for a byte: lower-case digits, no prefix, no padding.\<close>

definition show_hex :: "u8 \<Rightarrow> string" where
  "show_hex x = digits_of 16 (unat x)"

text \<open>\<open>std::dec << v\<close> for an \<open>int16_t\<close>: signed decimal.\<close>

definition show_dec :: "i16 \<Rightarrow> string" where
  "show_dec v = (if sint v < 0 then CHR ''-'' # digits_of 10 (nat (- sint v)) else digits_of 10 (nat (sint v)))"

text \<open>\<open>std::setw(n)\<close> with the default fill and adjustment: spaces on the left.\<close>

definition setw :: "nat \<Rightarrow> string \<Rightarrow> string" where
  "setw n s = replicate (n - length s) CHR '' '' @ s"

section \<open>Bus primitives\<close>

definition i2c_open :: "string \<Rightarrow> world \<Rightarrow> int result" where
  "i2c_open dev w =
     (let (r, w1) = do_syscall (SysOpen dev) w; fd = ret r in
      if fd < 0
      then Exit 1 (put_cerr (''Failed to open '' @ dev @ '': '' @ errstr r @ [CHR 0x0A]) w1)
      else Ret fd w1)"

definition i2c_set_slave :: "int \<Rightarrow> u8 \<Rightarrow> world \<Rightarrow> unit result" where
  "i2c_set_slave fd addr w =
     (let (r, w1) = do_syscall (SysIoctlSlave fd addr) w in
      if ret r < 0
      then Exit 1 (put_cerr (''Failed to set I2C slave 0x'' @ show_hex addr @ '': '' @ errstr r @ [CHR 0x0A]) w1)
      else Ret () w1)"

definition read8 :: "int \<Rightarrow> u8 \<Rightarrow> u8 \<Rightarrow> world \<Rightarrow> u8 result" where
  "read8 fd addr reg =
     seq (i2c_set_slave fd addr) (\<lambda>_ w1.
       let (r, w2) = do_syscall (SysWrite fd [reg]) w1 in
       if ret r \<noteq> 1
       then Exit 1 (put_cerr (''I2C write(reg) failed: '' @ errstr r @ [CHR 0x0A]) w2)
       else
         let (r', w3) = do_syscall (SysRead fd 1) w2 in
         if ret r' \<noteq> 1
         then Exit 1 (put_cerr (''I2C read failed: '' @ errstr r' @ [CHR 0x0A]) w3)
         else Ret (data r') w3)"

definition write8 :: "int \<Rightarrow> u8 \<Rightarrow> u8 \<Rightarrow> u8 \<Rightarrow> world \<Rightarrow> unit result" where
  "write8 fd addr reg val =
     seq (i2c_set_slave fd addr) (\<lambda>_ w1.
       let (r, w2) = do_syscall (SysWrite fd [reg, val]) w1 in
       if ret r \<noteq> 2
       then Exit 1 (put_cerr (''I2C write(reg,val) failed: '' @ errstr r @ [CHR 0x0A]) w2)
       else Ret () w2)"

definition read16_le :: "int \<Rightarrow> u8 \<Rightarrow> u8 \<Rightarrow> world \<Rightarrow> i16 result" where
  "read16_le fd addr reg_l =
     seq (read8 fd addr reg_l) (\<lambda>lo.
     seq (read8 fd addr (reg_l + 1)) (\<lambda>hi.
     Ret ((ucast lo :: 16 word) OR push_bit 8 (ucast hi :: 16 word))))"

section \<open>The program\<close>

text \<open>The constants that \<open>main\<close> declares (lines 60 to 80 of src/code.cpp).\<close>

definition I2C_DEV :: string where "I2C_DEV = ''/dev/i2c-1''"

definition ADDR_LSM6 :: u8 where "ADDR_LSM6 = 0x6B"  \<comment> \<open>gyro+accel\<close>
definition ADDR_LIS3 :: u8 where "ADDR_LIS3 = 0x1E"  \<comment> \<open>magnetometer\<close>

definition REG_WHO_AM_I_LSM6 :: u8 where "REG_WHO_AM_I_LSM6 = 0x0F"
definition REG_CTRL1_XL :: u8 where "REG_CTRL1_XL = 0x10"
definition REG_CTRL2_G :: u8 where "REG_CTRL2_G = 0x11"

definition REG_OUTX_L_G :: u8 where "REG_OUTX_L_G = 0x22"
definition REG_OUTX_L_XL :: u8 where "REG_OUTX_L_XL = 0x28"

definition REG_WHO_AM_I_LIS3 :: u8 where "REG_WHO_AM_I_LIS3 = 0x0F"
definition REG_CTRL_REG1 :: u8 where "REG_CTRL_REG1 = 0x20"
definition REG_CTRL_REG2 :: u8 where "REG_CTRL_REG2 = 0x21"
definition REG_CTRL_REG3 :: u8 where "REG_CTRL_REG3 = 0x22"

definition REG_OUT_X_L :: u8 where "REG_OUT_X_L = 0x28"

text \<open>\<open>usleep\<close> and \<open>close\<close>: the program ignores what they return.\<close>

definition usleep :: "nat \<Rightarrow> world \<Rightarrow> unit result" where
  "usleep us w = Ret () (snd (do_syscall (SysUsleep us) w))"

definition close_fd :: "int \<Rightarrow> world \<Rightarrow> unit result" where
  "close_fd fd w = Ret () (snd (do_syscall (SysClose fd) w))"

text \<open>The data line of one sample frame (lines 141 to 144).\<close>

definition frame_line :: "i16 \<Rightarrow> i16 \<Rightarrow> i16 \<Rightarrow> i16 \<Rightarrow> i16 \<Rightarrow> i16 \<Rightarrow> i16 \<Rightarrow> i16 \<Rightarrow> i16 \<Rightarrow> string" where
  "frame_line gx gy gz ax ay az mx my mz =
     setw 6 (show_dec gx) @ '' '' @ setw 6 (show_dec gy) @ '' '' @ setw 6 (show_dec gz)
     @ '' | '' @ setw 6 (show_dec ax) @ '' '' @ setw 6 (show_dec ay) @ '' '' @ setw 6 (show_dec az)
     @ '' | '' @ setw 6 (show_dec mx) @ '' '' @ setw 6 (show_dec my) @ '' '' @ setw 6 (show_dec mz)
     @ [CHR 0x0D]"

text \<open>The body of the \<open>while (true)\<close> loop (lines 126 to 146).\<close>

definition loop_body :: "int \<Rightarrow> world \<Rightarrow> unit result" where
  "loop_body fd =
     seq (read16_le fd ADDR_LSM6 REG_OUTX_L_G) (\<lambda>gx.
     seq (read16_le fd ADDR_LSM6 (REG_OUTX_L_G + 2)) (\<lambda>gy.
     seq (read16_le fd ADDR_LSM6 (REG_OUTX_L_G + 4)) (\<lambda>gz.
     seq (read16_le fd ADDR_LSM6 REG_OUTX_L_XL) (\<lambda>ax.
     seq (read16_le fd ADDR_LSM6 (REG_OUTX_L_XL + 2)) (\<lambda>ay.
     seq (read16_le fd ADDR_LSM6 (REG_OUTX_L_XL + 4)) (\<lambda>az.
     seq (read16_le fd ADDR_LIS3 REG_OUT_X_L) (\<lambda>mx.
     seq (read16_le fd ADDR_LIS3 (REG_OUT_X_L + 2)) (\<lambda>my.
     seq (read16_le fd ADDR_LIS3 (REG_OUT_X_L + 4)) (\<lambda>mz.
     seq (put_cout (frame_line gx gy gz ax ay az mx my mz)) (\<lambda>_.
     usleep 50000))))))))))"

text \<open>
  The loop itself. Its condition is the constant \<open>true\<close> and its body has no
  \<open>break\<close>; the first argument bounds the number of iterations the model follows.
\<close>

primrec sample_loop :: "nat \<Rightarrow> int \<Rightarrow> world \<Rightarrow> unit result" where
  "sample_loop 0 fd = OutOfFuel"
| "sample_loop (Suc n) fd =
     (if True then seq (loop_body fd) (\<lambda>_. sample_loop n fd) else Ret ())"

definition main :: "nat \<Rightarrow> world \<Rightarrow> unit result" where
  "main fuel =
     seq (i2c_open I2C_DEV) (\<lambda>fd.
     seq (read8 fd ADDR_LSM6 REG_WHO_AM_I_LSM6) (\<lambda>who_lsm6.
     seq (read8 fd ADDR_LIS3 REG_WHO_AM_I_LIS3) (\<lambda>who_lis3.
     seq (put_cout (''LSM6DS33 WHO_AM_I = 0x'' @ show_hex who_lsm6 @ [CHR 0x0A])) (\<lambda>_.
     seq (put_cout (''LIS3MDL  WHO_AM_I = 0x'' @ show_hex who_lis3 @ [CHR 0x0A, CHR 0x0A])) (\<lambda>_.
     seq (write8 fd ADDR_LSM6 REG_CTRL1_XL 0x20) (\<lambda>_.
     seq (write8 fd ADDR_LSM6 REG_CTRL2_G 0x24) (\<lambda>_.
     seq (write8 fd ADDR_LIS3 REG_CTRL_REG1 0x6C) (\<lambda>_.
     seq (write8 fd ADDR_LIS3 REG_CTRL_REG2 0x00) (\<lambda>_.
     seq (write8 fd ADDR_LIS3 REG_CTRL_REG3 0x00) (\<lambda>_.
     seq (put_cout (''Configured sensors. Streaming raw data...'' @ [CHR 0x0A])) (\<lambda>_.
     seq (put_cout (''Press Ctrl+C to stop.'' @ [CHR 0x0A, CHR 0x0A])) (\<lambda>_.
     seq (put_cout (''  Gx     Gy     Gz  |  Ax     Ay     Az  |  Mx     My     Mz'' @ [CHR 0x0A])) (\<lambda>_.
     seq (put_cout (replicate 65 CHR ''-'' @ [CHR 0x0A])) (\<lambda>_.
     seq (sample_loop fuel fd) (\<lambda>_.
     seq (close_fd fd) (\<lambda>_.
     Exit 0))))))))))))))))"

text \<open>A run of the program against an operating system, from a fresh process.\<close>

definition init_world :: "(nat \<Rightarrow> syscall \<Rightarrow> reply) \<Rightarrow> world" where
  "init_world os = \<lparr>kernel = os, trace = [], cout = [], cerr = []\<rparr>"

definition run :: "nat \<Rightarrow> (nat \<Rightarrow> syscall \<Rightarrow> reply) \<Rightarrow> unit result" where
  "run fuel os = main fuel (init_world os)"

section \<open>What counts as a failed call\<close>

text \<open>
  The tests the program applies to the values the calls return: a negative
  descriptor or \<open>ioctl\<close> result, and a transfer of any other length than the one
  asked for. What \<open>usleep\<close> and \<open>close\<close> return is never looked at.
\<close>

fun succeeds :: "syscall \<Rightarrow> reply \<Rightarrow> bool" where
  "succeeds (SysOpen dev) r = (0 \<le> ret r)"
| "succeeds (SysIoctlSlave fd addr) r = (0 \<le> ret r)"
| "succeeds (SysWrite fd bs) r = (ret r = int (length bs))"
| "succeeds (SysRead fd n) r = (ret r = int n)"
| "succeeds (SysUsleep us) r = True"
| "succeeds (SysClose fd) r = True"

definition never_fails :: "(nat \<Rightarrow> syscall \<Rightarrow> reply) \<Rightarrow> bool" where
  "never_fails os = (\<forall>i c. succeeds c (os i c))"

text \<open>An operating system on which every call succeeds and every read gives \<open>b\<close>.\<close>

fun good_reply :: "u8 \<Rightarrow> syscall \<Rightarrow> reply" where
  "good_reply b (SysOpen dev) = \<lparr>ret = 3, data = 0, errstr = ''Success''\<rparr>"
| "good_reply b (SysIoctlSlave fd addr) = \<lparr>ret = 0, data = 0, errstr = ''Success''\<rparr>"
| "good_reply b (SysWrite fd bs) = \<lparr>ret = int (length bs), data = 0, errstr = ''Success''\<rparr>"
| "good_reply b (SysRead fd n) = \<lparr>ret = int n, data = b, errstr = ''Success''\<rparr>"
| "good_reply b (SysUsleep us) = \<lparr>ret = 0, data = 0, errstr = ''Success''\<rparr>"
| "good_reply b (SysClose fd) = \<lparr>ret = 0, data = 0, errstr = ''Success''\<rparr>"

section \<open>The calls of the primitives\<close>

text \<open>The calls of one register read and of one register write, in order.\<close>

definition read8_calls :: "int \<Rightarrow> u8 \<Rightarrow> u8 \<Rightarrow> syscall list" where
  "read8_calls fd addr reg = [SysIoctlSlave fd addr, SysWrite fd [reg], SysRead fd 1]"

definition write8_calls :: "int \<Rightarrow> u8 \<Rightarrow> u8 \<Rightarrow> u8 \<Rightarrow> syscall list" where
  "write8_calls fd addr reg val = [SysIoctlSlave fd addr, SysWrite fd [reg, val]]"

section \<open>The script of a run\<close>

text \<open>The line that each failing call leaves on the error stream.\<close>

fun diagnostic :: "syscall \<Rightarrow> reply \<Rightarrow> string" where
  "diagnostic (SysOpen dev) r = ''Failed to open '' @ dev @ '': '' @ errstr r @ [CHR 0x0A]"
| "diagnostic (SysIoctlSlave fd addr) r =
     ''Failed to set I2C slave 0x'' @ show_hex addr @ '': '' @ errstr r @ [CHR 0x0A]"
| "diagnostic (SysWrite fd bs) r =
     (if length bs = 1 then ''I2C write(reg) failed: '' else ''I2C write(reg,val) failed: '')
     @ errstr r @ [CHR 0x0A]"
| "diagnostic (SysRead fd n) r = ''I2C read failed: '' @ errstr r @ [CHR 0x0A]"
| "diagnostic (SysUsleep us) r = []"
| "diagnostic (SysClose fd) r = []"

text \<open>
  The position in \<open>cs\<close> of the first call that fails, when the calls of \<open>cs\<close> are
  issued in order and the first of them is the \<open>k\<close>-th call of the process.
\<close>

fun first_failure :: "(nat \<Rightarrow> syscall \<Rightarrow> reply) \<Rightarrow> nat \<Rightarrow> syscall list \<Rightarrow> nat option" where
  "first_failure os k [] = None"
| "first_failure os k (c # cs) =
     (if succeeds c (os k c) then map_option Suc (first_failure os (Suc k) cs) else Some 0)"

text \<open>
  A routine obeys the script \<open>cs\<close> from world \<open>w\<close> when it issues the calls of \<open>cs\<close>
  in order up to the first that fails, then prints that call's diagnostic and
  exits with status 1; and, when none fails, issues them all and returns
  (or, with \<open>endless\<close>, is still looping).
\<close>

definition obeys_at :: "bool \<Rightarrow> syscall list \<Rightarrow> world \<Rightarrow> 'a result \<Rightarrow> bool" where
  "obeys_at endless cs w res =
     (case first_failure (kernel w) (length (trace w)) cs of
        None \<Rightarrow>
          \<exists>w'. (if endless then res = OutOfFuel w' else (\<exists>x. res = Ret x w'))
             \<and> kernel w' = kernel w \<and> trace w' = trace w @ cs \<and> cerr w' = cerr w
      | Some j \<Rightarrow>
          \<exists>w'. res = Exit 1 w' \<and> kernel w' = kernel w \<and> trace w' = trace w @ take (Suc j) cs
             \<and> cerr w' = cerr w @ diagnostic (cs ! j) (kernel w (length (trace w) + j) (cs ! j)))"

definition obeys :: "bool \<Rightarrow> syscall list \<Rightarrow> (world \<Rightarrow> 'a result) \<Rightarrow> bool" where
  "obeys endless cs p = (\<forall>w. obeys_at endless cs w (p w))"

text \<open>The calls of the larger routines when nothing fails.\<close>

definition read16_calls :: "int \<Rightarrow> u8 \<Rightarrow> u8 \<Rightarrow> syscall list" where
  "read16_calls fd addr reg_l = read8_calls fd addr reg_l @ read8_calls fd addr (reg_l + 1)"

definition frame_calls :: "int \<Rightarrow> syscall list" where
  "frame_calls fd =
     read16_calls fd ADDR_LSM6 REG_OUTX_L_G
     @ read16_calls fd ADDR_LSM6 (REG_OUTX_L_G + 2)
     @ read16_calls fd ADDR_LSM6 (REG_OUTX_L_G + 4)
     @ read16_calls fd ADDR_LSM6 REG_OUTX_L_XL
     @ read16_calls fd ADDR_LSM6 (REG_OUTX_L_XL + 2)
     @ read16_calls fd ADDR_LSM6 (REG_OUTX_L_XL + 4)
     @ read16_calls fd ADDR_LIS3 REG_OUT_X_L
     @ read16_calls fd ADDR_LIS3 (REG_OUT_X_L + 2)
     @ read16_calls fd ADDR_LIS3 (REG_OUT_X_L + 4)
     @ [SysUsleep 50000]"

definition setup_calls :: "int \<Rightarrow> syscall list" where
  "setup_calls fd =
     read8_calls fd ADDR_LSM6 REG_WHO_AM_I_LSM6
     @ read8_calls fd ADDR_LIS3 REG_WHO_AM_I_LIS3
     @ write8_calls fd ADDR_LSM6 REG_CTRL1_XL 0x20
     @ write8_calls fd ADDR_LSM6 REG_CTRL2_G 0x24
     @ write8_calls fd ADDR_LIS3 REG_CTRL_REG1 0x6C
     @ write8_calls fd ADDR_LIS3 REG_CTRL_REG2 0x00
     @ write8_calls fd ADDR_LIS3 REG_CTRL_REG3 0x00"

definition config_calls :: "int \<Rightarrow> syscall list" where
  "config_calls fd = SysOpen I2C_DEV # setup_calls fd"

definition program_calls :: "int \<Rightarrow> nat \<Rightarrow> syscall list" where
  "program_calls fd fuel = config_calls fd @ concat (replicate fuel (frame_calls fd))"

section \<open>The text of a run\<close>

text \<open>
  The word that \<open>read16_le\<close> returns when its first call is the \<open>k\<close>-th call of
  the process: the bytes of the two reads, which are calls \<open>k + 2\<close> and \<open>k + 5\<close>.
\<close>

definition word_reply :: "(nat \<Rightarrow> syscall \<Rightarrow> reply) \<Rightarrow> int \<Rightarrow> nat \<Rightarrow> i16" where
  "word_reply os fd k =
     (ucast (data (os (k + 2) (SysRead fd 1))) :: 16 word)
       OR push_bit 8 (ucast (data (os (k + 5) (SysRead fd 1))))"

text \<open>The data line of the frame whose first call is the \<open>k\<close>-th call of the process.\<close>

definition frame_text :: "(nat \<Rightarrow> syscall \<Rightarrow> reply) \<Rightarrow> int \<Rightarrow> nat \<Rightarrow> string" where
  "frame_text os fd k =
     frame_line (word_reply os fd k) (word_reply os fd (k + 6)) (word_reply os fd (k + 12))
       (word_reply os fd (k + 18)) (word_reply os fd (k + 24)) (word_reply os fd (k + 30))
       (word_reply os fd (k + 36)) (word_reply os fd (k + 42)) (word_reply os fd (k + 48))"

text \<open>What \<open>main\<close> prints before the loop, given the two identification bytes.\<close>

definition who_text :: "u8 \<Rightarrow> u8 \<Rightarrow> string" where
  "who_text who_lsm6 who_lis3 =
     ''LSM6DS33 WHO_AM_I = 0x'' @ show_hex who_lsm6 @ [CHR 0x0A]
     @ ''LIS3MDL  WHO_AM_I = 0x'' @ show_hex who_lis3 @ [CHR 0x0A, CHR 0x0A]"

definition header_text :: string where
  "header_text =
     ''Configured sensors. Streaming raw data...'' @ [CHR 0x0A]
     @ ''Press Ctrl+C to stop.'' @ [CHR 0x0A, CHR 0x0A]
     @ ''  Gx     Gy     Gz  |  Ax     Ay     Az  |  Mx     My     Mz'' @ [CHR 0x0A]
     @ replicate 65 CHR ''-'' @ [CHR 0x0A]"

section \<open>Reading the trace\<close>

text \<open>
  The eighteen register reads of one frame, as pairs of device address and
  register, in the order in which the loop issues them.
\<close>

definition sample_reads :: "(u8 \<times> u8) list" where
  "sample_reads =
     [(0x6B, 0x22), (0x6B, 0x23), (0x6B, 0x24), (0x6B, 0x25), (0x6B, 0x26), (0x6B, 0x27),
      (0x6B, 0x28), (0x6B, 0x29), (0x6B, 0x2A), (0x6B, 0x2B), (0x6B, 0x2C), (0x6B, 0x2D),
      (0x1E, 0x28), (0x1E, 0x29), (0x1E, 0x2A), (0x1E, 0x2B), (0x1E, 0x2C), (0x1E, 0x2D)]"

text \<open>The register numbers that a sequence of calls sends as one-byte writes.\<close>

fun reg_bytes :: "syscall list \<Rightarrow> u8 list" where
  "reg_bytes [] = []"
| "reg_bytes (SysWrite fd [r] # cs) = r # reg_bytes cs"
| "reg_bytes (c # cs) = reg_bytes cs"

text \<open>
  The register writes that a sequence of calls delivers: for every two-byte
  write that directly follows a device select, the device address, the register
  and the value.
\<close>

fun reg_writes :: "syscall list \<Rightarrow> (u8 \<times> u8 \<times> u8) list" where
  "reg_writes [] = []"
| "reg_writes (SysIoctlSlave fd addr # SysWrite fd' [reg, val] # cs) =
     (addr, reg, val) # reg_writes cs"
| "reg_writes (c # cs) = reg_writes cs"

text \<open>An operating system on which every call succeeds and every read gives 0.\<close>

definition good_os :: "nat \<Rightarrow> syscall \<Rightarrow> reply" where
  "good_os i = good_reply 0"

section \<open>Comparing two runs\<close>

text \<open>What an observer of the process sees: calls, console text, exit status.\<close>

definition same_io :: "world \<Rightarrow> world \<Rightarrow> bool" where
  "same_io w1 w2 = (trace w1 = trace w2 \<and> cout w1 = cout w2 \<and> cerr w1 = cerr w2)"

definition same_result :: "'a result \<Rightarrow> 'a result \<Rightarrow> bool" where
  "same_result r1 r2 =
     (case r1 of
        Ret x w1 \<Rightarrow> (\<exists>w2. r2 = Ret x w2 \<and> same_io w1 w2)
      | Exit c w1 \<Rightarrow> (\<exists>w2. r2 = Exit c w2 \<and> same_io w1 w2)
      | OutOfFuel w1 \<Rightarrow> (\<exists>w2. r2 = OutOfFuel w2 \<and> same_io w1 w2))"

fun exit_status :: "'a result \<Rightarrow> int option" where
  "exit_status (Exit c w) = Some c"
| "exit_status (Ret x w) = None"
| "exit_status (OutOfFuel w) = None"

text \<open>
  Two operating systems agree on the calls of \<open>tr\<close> from position \<open>n\<close> on when
  they give the same reply to each of these calls at its position.
\<close>

definition agrees :: "(nat \<Rightarrow> syscall \<Rightarrow> reply) \<Rightarrow> (nat \<Rightarrow> syscall \<Rightarrow> reply) \<Rightarrow> nat \<Rightarrow> syscall list \<Rightarrow> bool" where
  "agrees k1 k2 n tr = (\<forall>i. n \<le> i \<and> i < length tr \<longrightarrow> k2 i (tr ! i) = k1 i (tr ! i))"

text \<open>A routine keeps the operating system and only adds to the trace and to the output.\<close>

definition extends :: "(world \<Rightarrow> 'a result) \<Rightarrow> bool" where
  "extends p =
     (\<forall>w. kernel (world_of (p w)) = kernel w
        \<and> (\<exists>cs. trace (world_of (p w)) = trace w @ cs)
        \<and> (\<exists>s. cout (world_of (p w)) = cout w @ s))"

definition steady :: "(world \<Rightarrow> 'a result) \<Rightarrow> bool" where
  "steady p =
     (extends p \<and>
      (\<forall>w1 w2. same_io w1 w2
          \<and> agrees (kernel w1) (kernel w2) (length (trace w1)) (trace (world_of (p w1)))
          \<longrightarrow> same_result (p w1) (p w2)))"

text \<open>The two steps of which the bus primitives are made.\<close>

definition call :: "syscall \<Rightarrow> world \<Rightarrow> reply result" where
  "call c w = Ret (fst (do_syscall c w)) (snd (do_syscall c w))"

definition fail :: "string \<Rightarrow> world \<Rightarrow> 'a result" where
  "fail msg w = Exit 1 (put_cerr msg w)"

section \<open>Sequencing and the primitives\<close>

lemmas reg_defs =
  ADDR_LSM6_def ADDR_LIS3_def REG_WHO_AM_I_LSM6_def REG_CTRL1_XL_def REG_CTRL2_G_def
  REG_OUTX_L_G_def REG_OUTX_L_XL_def REG_WHO_AM_I_LIS3_def REG_CTRL_REG1_def
  REG_CTRL_REG2_def REG_CTRL_REG3_def REG_OUT_X_L_def

lemma seq_Ret: "m w = Ret x w' \<Longrightarrow> seq m f w = f x w'"
  by (simp add: seq_def)

lemma seq_Exit: "m w = Exit c w' \<Longrightarrow> seq m f w = Exit c w'"
  by (simp add: seq_def)

lemma seq_OutOfFuel: "m w = OutOfFuel w' \<Longrightarrow> seq m f w = OutOfFuel w'"
  by (simp add: seq_def)

lemma seq_eq_Ret:
  "seq m f w = Ret y w'' \<longleftrightarrow> (\<exists>x w'. m w = Ret x w' \<and> f x w' = Ret y w'')"
  by (simp add: seq_def split: result.splits)

lemma seq_eq_OutOfFuel:
  "seq m f w = OutOfFuel w'' \<longleftrightarrow>
     m w = OutOfFuel w'' \<or> (\<exists>x w'. m w = Ret x w' \<and> f x w' = OutOfFuel w'')"
  by (auto simp add: seq_def split: result.splits)

lemma seq_eq_Exit:
  "seq m f w = Exit c w'' \<longleftrightarrow>
     m w = Exit c w'' \<or> (\<exists>x w'. m w = Ret x w' \<and> f x w' = Exit c w'')"
  by (auto simp add: seq_def split: result.splits)

lemma i2c_set_slave_Ret:
  "i2c_set_slave fd addr w = Ret u w' \<Longrightarrow> w' = w\<lparr>trace := trace w @ [SysIoctlSlave fd addr]\<rparr>"
  by (simp add: i2c_set_slave_def do_syscall_def split: if_splits)

lemma read8_Ret:
  assumes "read8 fd addr reg w = Ret v w'"
  shows "w' = w\<lparr>trace := trace w @ read8_calls fd addr reg\<rparr>"
    and "v = data (kernel w (length (trace w) + 2) (SysRead fd 1))"
  using assms
  by (auto simp add: read8_def seq_eq_Ret read8_calls_def do_syscall_def
      dest!: i2c_set_slave_Ret split: if_splits)

lemma write8_Ret:
  assumes "write8 fd addr reg val w = Ret u w'"
  shows "w' = w\<lparr>trace := trace w @ write8_calls fd addr reg val\<rparr>"
  using assms
  by (auto simp add: write8_def seq_eq_Ret write8_calls_def do_syscall_def
      dest!: i2c_set_slave_Ret split: if_splits)

lemma read16_le_Ret:
  assumes "read16_le fd addr reg w = Ret v w'"
  shows "w' = w\<lparr>trace := trace w @ read8_calls fd addr reg @ read8_calls fd addr (reg + 1)\<rparr>"
    and "v = (ucast (data (kernel w (length (trace w) + 2) (SysRead fd 1))) :: 16 word)
             OR push_bit 8 (ucast (data (kernel w (length (trace w) + 5) (SysRead fd 1))))"
proof -
  from assms obtain lo w1 hi where
    lo: "read8 fd addr reg w = Ret lo w1" and
    hi: "read8 fd addr (reg + 1) w1 = Ret hi w'" and
    v: "v = (ucast lo :: 16 word) OR push_bit 8 (ucast hi)"
    by (auto simp add: read16_le_def seq_eq_Ret)
  note a = read8_Ret [OF lo] and b = read8_Ret [OF hi]
  show "w' = w\<lparr>trace := trace w @ read8_calls fd addr reg @ read8_calls fd addr (reg + 1)\<rparr>"
    by (simp add: a(1) b(1))
  show "v = (ucast (data (kernel w (length (trace w) + 2) (SysRead fd 1))) :: 16 word)
             OR push_bit 8 (ucast (data (kernel w (length (trace w) + 5) (SysRead fd 1))))"
    by (simp add: v a b(2) read8_calls_def eval_nat_numeral)
qed

section \<open>Little-endian words\<close>

lemma le16_plus:
  "(ucast (lo :: u8) :: 16 word) OR push_bit 8 (ucast (hi :: u8)) = ucast lo + push_bit 8 (ucast hi)"
  by (rule disjunctive_add_eq_or [symmetric]) (auto simp add: bit_eq_iff bit_simps dest: bit_imp_le_length)

lemma le16_uint:
  "uint ((ucast (lo :: u8) :: 16 word) OR push_bit 8 (ucast (hi :: u8))) = uint lo + 256 * uint hi"
proof -
  have b: "uint lo < 256" "uint hi < 256" "0 \<le> uint lo" "0 \<le> uint hi"
    using uint_lt2p [of lo] uint_lt2p [of hi] by simp_all
  have "uint (ucast lo :: 16 word) = uint lo" "uint (ucast hi :: 16 word) = uint hi"
    by (simp_all add: uint_up_ucast is_up)
  then have "uint ((ucast lo :: 16 word) + push_bit 8 (ucast hi)) = (uint lo + 256 * uint hi) mod 65536"
    by (simp add: uint_word_ariths push_bit_eq_mult mod_simps mult.commute)
  also have "\<dots> = uint lo + 256 * uint hi"
    using b by simp
  finally show ?thesis
    unfolding le16_plus .
qed

lemma sint16_uint:
  "sint (v :: 16 word) = (if uint v < 32768 then uint v else uint v - 65536)"
proof -
  have b: "0 \<le> uint v" "uint v < 65536"
    using uint_lt2p [of v] by simp_all
  have t: "take_bit 16 (uint v) = uint v"
    using b by (simp add: take_bit_int_eq_self)
  have d: "bit (uint v) 15 \<longleftrightarrow> \<not> uint v < 32768"
  proof (cases "uint v < 32768")
    case True
    with b have "uint v div 2 ^ 15 = 0" by simp
    with True show ?thesis by (simp add: bit_iff_odd)
  next
    case False
    with b have "uint v div 2 ^ 15 = 1" by simp
    with False show ?thesis by (simp add: bit_iff_odd)
  qed
  show ?thesis
    by (simp add: sint_uint signed_take_bit_eq_take_bit_minus t d)
qed

section \<open>Runs on which nothing fails\<close>

lemma never_fails_good_reply: "never_fails (\<lambda>i. good_reply (f i))"
  unfolding never_fails_def
proof (intro allI)
  fix i c show "succeeds c (good_reply (f i) c)" by (cases c) simp_all
qed

lemma never_fails_ret:
  assumes "never_fails os"
  shows "\<not> ret (os i (SysOpen dev)) < 0"
    and "\<not> ret (os i (SysIoctlSlave fd addr)) < 0"
    and "ret (os i (SysWrite fd [a])) = 1"
    and "ret (os i (SysWrite fd [a, b])) = 2"
    and "ret (os i (SysRead fd (Suc 0))) = 1"
proof -
  have s: "succeeds c (os i c)" for c
    using assms by (simp add: never_fails_def)
  show "\<not> ret (os i (SysOpen dev)) < 0" using s [of "SysOpen dev"] by simp
  show "\<not> ret (os i (SysIoctlSlave fd addr)) < 0" using s [of "SysIoctlSlave fd addr"] by simp
  show "ret (os i (SysWrite fd [a])) = 1" using s [of "SysWrite fd [a]"] by simp
  show "ret (os i (SysWrite fd [a, b])) = 2" using s [of "SysWrite fd [a, b]"] by simp
  show "ret (os i (SysRead fd (Suc 0))) = 1" using s [of "SysRead fd 1"] by simp
qed

lemma i2c_open_ok:
  "never_fails (kernel w) \<Longrightarrow>
   i2c_open dev w = Ret (ret (kernel w (length (trace w)) (SysOpen dev))) (w\<lparr>trace := trace w @ [SysOpen dev]\<rparr>)"
  by (simp add: i2c_open_def do_syscall_def never_fails_ret)

lemma i2c_set_slave_ok:
  "never_fails (kernel w) \<Longrightarrow>
   i2c_set_slave fd addr w = Ret () (w\<lparr>trace := trace w @ [SysIoctlSlave fd addr]\<rparr>)"
  by (simp add: i2c_set_slave_def do_syscall_def never_fails_ret)

lemma read8_ok:
  "never_fails (kernel w) \<Longrightarrow>
   read8 fd addr reg w =
     Ret (data (kernel w (length (trace w) + 2) (SysRead fd 1)))
         (w\<lparr>trace := trace w @ read8_calls fd addr reg\<rparr>)"
  by (simp add: read8_def seq_def i2c_set_slave_ok do_syscall_def never_fails_ret read8_calls_def
      eval_nat_numeral)

lemma write8_ok:
  "never_fails (kernel w) \<Longrightarrow>
   write8 fd addr reg val w = Ret () (w\<lparr>trace := trace w @ write8_calls fd addr reg val\<rparr>)"
  by (simp add: write8_def seq_def i2c_set_slave_ok do_syscall_def never_fails_ret write8_calls_def)

text \<open>
  C1: \<open>read16_le\<close> takes the byte of its first register read as the low byte and
  the byte of the second read (register \<open>reg_l + 1\<close>) as the high byte, and the
  16-bit result is read as a signed two's-complement number. Low byte 0x34 with
  high byte 0x12 gives 4660; low byte 0xFF with high byte 0xFF gives -1.
\<close>

theorem read16_le_little_endian:
  assumes "read8 fd addr reg_l w = Ret lo w1"
    and "read8 fd addr (reg_l + 1) w1 = Ret hi w2"
  shows "\<exists>v. read16_le fd addr reg_l w = Ret v w2
           \<and> uint v = uint lo + 256 * uint hi
           \<and> sint v = (if uint hi < 128 then uint lo + 256 * uint hi
                       else uint lo + 256 * uint hi - 65536)
           \<and> (lo = 0x34 \<and> hi = 0x12 \<longrightarrow> sint v = 4660)
           \<and> (lo = 0xFF \<and> hi = 0xFF \<longrightarrow> sint v = - 1)"
proof -
  let ?v = "(ucast lo :: 16 word) OR push_bit 8 (ucast hi)"
  have r: "read16_le fd addr reg_l w = Ret ?v w2"
    by (simp add: read16_le_def seq_def assms)
  have u: "uint ?v = uint lo + 256 * uint hi"
    by (rule le16_uint)
  have b: "0 \<le> uint lo" "uint lo < 256"
    using uint_lt2p [of lo] by simp_all
  have "uint lo + 256 * uint hi < 32768 \<longleftrightarrow> uint hi < 128"
    using b by arith
  then have s: "sint ?v = (if uint hi < 128 then uint lo + 256 * uint hi
                           else uint lo + 256 * uint hi - 65536)"
    by (simp add: sint16_uint u)
  have e1: "lo = 0x34 \<and> hi = 0x12 \<longrightarrow> sint ?v = 4660"
    by (simp add: s)
  have e2: "lo = 0xFF \<and> hi = 0xFF \<longrightarrow> sint ?v = - 1"
    by (simp add: s)
  from r u s e1 e2 show ?thesis by blast
qed

theorem read16_le_little_endian_witness:
  "(\<exists>v w'. read16_le 3 0x6B 0x28 (init_world (\<lambda>i. good_reply (if i = 2 then 0x34 else 0x12))) = Ret v w'
       \<and> sint v = 4660)
   \<and> (\<exists>v w'. read16_le 3 0x6B 0x28 (init_world (\<lambda>i. good_reply 0xFF)) = Ret v w' \<and> sint v = - 1)"
proof -
  let ?k1 = "\<lambda>i::nat. good_reply (if i = 2 then 0x34 else 0x12)"
  let ?k2 = "\<lambda>i::nat. good_reply 0xFF"
  let ?cs = "read8_calls 3 0x6B 0x28"
  have a1: "read8 3 0x6B 0x28 (init_world ?k1) = Ret 0x34 (init_world ?k1\<lparr>trace := ?cs\<rparr>)"
    using read8_ok [of "init_world ?k1" 3 "0x6B" "0x28"] never_fails_good_reply [of "\<lambda>i. if i = 2 then 0x34 else 0x12"]
    by (simp add: init_world_def)
  have b1: "read8 3 0x6B (0x28 + 1) (init_world ?k1\<lparr>trace := ?cs\<rparr>)
            = Ret 0x12 (init_world ?k1\<lparr>trace := ?cs @ read8_calls 3 0x6B (0x28 + 1)\<rparr>)"
    using read8_ok [of "init_world ?k1\<lparr>trace := ?cs\<rparr>" 3 "0x6B" "0x28 + 1"]
      never_fails_good_reply [of "\<lambda>i. if i = 2 then 0x34 else 0x12"]
    by (simp add: init_world_def read8_calls_def)
  have a2: "read8 3 0x6B 0x28 (init_world ?k2) = Ret 0xFF (init_world ?k2\<lparr>trace := ?cs\<rparr>)"
    using read8_ok [of "init_world ?k2" 3 "0x6B" "0x28"] never_fails_good_reply [of "\<lambda>i. 0xFF"]
    by (simp add: init_world_def)
  have b2: "read8 3 0x6B (0x28 + 1) (init_world ?k2\<lparr>trace := ?cs\<rparr>)
            = Ret 0xFF (init_world ?k2\<lparr>trace := ?cs @ read8_calls 3 0x6B (0x28 + 1)\<rparr>)"
    using read8_ok [of "init_world ?k2\<lparr>trace := ?cs\<rparr>" 3 "0x6B" "0x28 + 1"]
      never_fails_good_reply [of "\<lambda>i. 0xFF"]
    by (simp add: init_world_def read8_calls_def)
  from read16_le_little_endian [OF a1 b1] read16_le_little_endian [OF a2 b2]
  show ?thesis by blast
qed

section \<open>Every routine obeys its script\<close>

lemma first_failure_append:
  "first_failure os k (cs @ ds) =
     (case first_failure os k cs of
        Some j \<Rightarrow> Some j
      | None \<Rightarrow> map_option (\<lambda>j. length cs + j) (first_failure os (k + length cs) ds))"
proof (induction cs arbitrary: k)
  case Nil
  show ?case by (cases "first_failure os k ds") simp_all
next
  case (Cons c cs)
  show ?case
    by (cases "first_failure os (Suc k) cs"; cases "first_failure os (Suc (k + length cs)) ds")
      (simp_all add: Cons.IH)
qed

lemma first_failure_None_iff:
  "first_failure os k cs = None \<longleftrightarrow> (\<forall>i<length cs. succeeds (cs ! i) (os (k + i) (cs ! i)))"
proof (induction cs arbitrary: k)
  case Nil
  show ?case by simp
next
  case (Cons c cs)
  show ?case
    by (auto simp add: Cons.IH less_Suc_eq_0_disj)
qed

lemma first_failure_Some:
  "first_failure os k cs = Some j \<Longrightarrow>
     j < length cs \<and> \<not> succeeds (cs ! j) (os (k + j) (cs ! j))
     \<and> (\<forall>i<j. succeeds (cs ! i) (os (k + i) (cs ! i)))"
proof (induction cs arbitrary: k j)
  case Nil
  then show ?case by simp
next
  case (Cons c cs)
  show ?case
  proof (cases "succeeds c (os k c)")
    case False
    with Cons.prems show ?thesis by simp
  next
    case True
    with Cons.prems obtain j' where j': "first_failure os (Suc k) cs = Some j'" "j = Suc j'"
      by auto
    from Cons.IH [OF j'(1)] True j'(2) show ?thesis
      by (auto simp add: less_Suc_eq_0_disj)
  qed
qed

lemma obeys_Ret: "obeys False [] (Ret x)"
  by (simp add: obeys_def obeys_at_def obeys_at_def)

lemma obeys_OutOfFuel: "obeys True [] OutOfFuel"
  by (simp add: obeys_def obeys_at_def)

lemma obeys_put_cout: "obeys False [] (put_cout s)"
  by (simp add: obeys_def obeys_at_def put_cout_def)

lemma obeys_usleep: "obeys False [SysUsleep us] (usleep us)"
  by (simp add: obeys_def obeys_at_def usleep_def do_syscall_def)

lemma obeys_close_fd: "obeys False [SysClose fd] (close_fd fd)"
  by (simp add: obeys_def obeys_at_def close_fd_def do_syscall_def)

lemma obeys_i2c_open: "obeys False [SysOpen dev] (i2c_open dev)"
  by (simp add: obeys_def obeys_at_def i2c_open_def do_syscall_def put_cerr_def)

lemma obeys_i2c_set_slave: "obeys False [SysIoctlSlave fd addr] (i2c_set_slave fd addr)"
  by (simp add: obeys_def obeys_at_def i2c_set_slave_def do_syscall_def put_cerr_def)

lemma obeys_read8: "obeys False (read8_calls fd addr reg) (read8 fd addr reg)"
  by (simp add: obeys_def obeys_at_def read8_def seq_def i2c_set_slave_def do_syscall_def put_cerr_def
      read8_calls_def)

lemma obeys_write8: "obeys False (write8_calls fd addr reg val) (write8 fd addr reg val)"
  by (simp add: obeys_def obeys_at_def write8_def seq_def i2c_set_slave_def do_syscall_def put_cerr_def
      write8_calls_def)

lemma obeys_seq:
  assumes m: "obeys False cs m" and f: "\<And>x. obeys b ds (f x)"
  shows "obeys b (cs @ ds) (seq m f)"
  unfolding obeys_def obeys_at_def
proof (intro allI)
  fix w :: world
  let ?os = "kernel w" and ?k = "length (trace w)"
  show "case first_failure ?os ?k (cs @ ds) of
          None \<Rightarrow>
            \<exists>w'. (if b then seq m f w = OutOfFuel w' else (\<exists>x. seq m f w = Ret x w'))
               \<and> kernel w' = ?os \<and> trace w' = trace w @ cs @ ds \<and> cerr w' = cerr w
        | Some j \<Rightarrow>
            \<exists>w'. seq m f w = Exit 1 w' \<and> kernel w' = ?os
               \<and> trace w' = trace w @ take (Suc j) (cs @ ds)
               \<and> cerr w' = cerr w @ diagnostic ((cs @ ds) ! j) (?os (?k + j) ((cs @ ds) ! j))"
  proof (cases "first_failure ?os ?k cs")
    case (Some j)
    then have j: "j < length cs" by (simp add: first_failure_Some)
    from m Some obtain w' where
      "m w = Exit 1 w'" "kernel w' = ?os" "trace w' = trace w @ take (Suc j) cs"
      "cerr w' = cerr w @ diagnostic (cs ! j) (?os (?k + j) (cs ! j))"
      unfolding obeys_def obeys_at_def by (fastforce split: option.splits)
    with Some j show ?thesis
      by (simp add: first_failure_append seq_Exit nth_append)
  next
    case None
    with m obtain x w1 where
      w1: "m w = Ret x w1" "kernel w1 = ?os" "trace w1 = trace w @ cs" "cerr w1 = cerr w"
      unfolding obeys_def obeys_at_def by (fastforce split: option.splits)
    have s: "seq m f w = f x w1"
      by (simp add: seq_Ret w1(1))
    show ?thesis
    proof (cases "first_failure ?os (?k + length cs) ds")
      case inner: None
      with f [of x] w1 obtain w' where
        "if b then f x w1 = OutOfFuel w' else (\<exists>y. f x w1 = Ret y w')"
        "kernel w' = ?os" "trace w' = trace w @ cs @ ds" "cerr w' = cerr w"
        unfolding obeys_def obeys_at_def by (fastforce split: option.splits)
      with None inner s show ?thesis
        by (auto simp add: first_failure_append)
    next
      case inner: (Some j)
      with f [of x] w1 obtain w' where
        "f x w1 = Exit 1 w'" "kernel w' = ?os" "trace w' = trace w @ cs @ take (Suc j) ds"
        "cerr w' = cerr w @ diagnostic (ds ! j) (?os (?k + length cs + j) (ds ! j))"
        unfolding obeys_def obeys_at_def by (fastforce split: option.splits)
      with None inner s show ?thesis
        by (simp add: first_failure_append add.assoc)
    qed
  qed
qed

lemma obeys_seq_endless:
  assumes m: "obeys True cs m"
  shows "obeys True cs (seq m f)"
  unfolding obeys_def obeys_at_def
proof (intro allI)
  fix w :: world
  show "case first_failure (kernel w) (length (trace w)) cs of
          None \<Rightarrow>
            \<exists>w'. (if True then seq m f w = OutOfFuel w' else (\<exists>x. seq m f w = Ret x w'))
               \<and> kernel w' = kernel w \<and> trace w' = trace w @ cs \<and> cerr w' = cerr w
        | Some j \<Rightarrow>
            \<exists>w'. seq m f w = Exit 1 w' \<and> kernel w' = kernel w
               \<and> trace w' = trace w @ take (Suc j) cs
               \<and> cerr w' = cerr w @ diagnostic (cs ! j) (kernel w (length (trace w) + j) (cs ! j))"
    using m [unfolded obeys_def obeys_at_def, rule_format, of w]
    by (auto simp add: seq_Exit seq_OutOfFuel split: option.splits)
qed

lemma obeys_read16_le: "obeys False (read16_calls fd addr reg_l) (read16_le fd addr reg_l)"
proof -
  have "obeys False (read8_calls fd addr reg_l @ read8_calls fd addr (reg_l + 1) @ [])
          (read16_le fd addr reg_l)"
    unfolding read16_le_def by (intro obeys_seq obeys_read8 obeys_Ret)
  then show ?thesis by (simp add: read16_calls_def)
qed

lemma obeys_loop_body: "obeys False (frame_calls fd) (loop_body fd)"
proof -
  have "obeys False
          (read16_calls fd ADDR_LSM6 REG_OUTX_L_G
           @ read16_calls fd ADDR_LSM6 (REG_OUTX_L_G + 2)
           @ read16_calls fd ADDR_LSM6 (REG_OUTX_L_G + 4)
           @ read16_calls fd ADDR_LSM6 REG_OUTX_L_XL
           @ read16_calls fd ADDR_LSM6 (REG_OUTX_L_XL + 2)
           @ read16_calls fd ADDR_LSM6 (REG_OUTX_L_XL + 4)
           @ read16_calls fd ADDR_LIS3 REG_OUT_X_L
           @ read16_calls fd ADDR_LIS3 (REG_OUT_X_L + 2)
           @ read16_calls fd ADDR_LIS3 (REG_OUT_X_L + 4)
           @ [] @ [SysUsleep 50000])
          (loop_body fd)"
    unfolding loop_body_def by (intro obeys_seq obeys_read16_le obeys_put_cout obeys_usleep)
  then show ?thesis by (simp add: frame_calls_def)
qed

lemma obeys_sample_loop: "obeys True (concat (replicate n (frame_calls fd))) (sample_loop n fd)"
proof (induction n)
  case 0
  show ?case by (simp add: obeys_OutOfFuel)
next
  case (Suc n)
  have "obeys True (frame_calls fd @ concat (replicate n (frame_calls fd)))
          (seq (loop_body fd) (\<lambda>_. sample_loop n fd))"
    by (intro obeys_seq obeys_loop_body Suc.IH)
  then show ?case by simp
qed

lemma obeys_at_open_seq:
  assumes f: "\<And>fd. obeys b (ds fd) (f fd)"
  shows "obeys_at b (SysOpen dev # ds (ret (kernel w (length (trace w)) (SysOpen dev)))) w
           (seq (i2c_open dev) f w)"
proof -
  let ?r = "kernel w (length (trace w)) (SysOpen dev)"
  let ?w1 = "w\<lparr>trace := trace w @ [SysOpen dev]\<rparr>"
  show ?thesis
  proof (cases "ret ?r < 0")
    case True
    then show ?thesis
      by (simp add: obeys_at_def seq_def i2c_open_def do_syscall_def put_cerr_def)
  next
    case False
    then have s: "seq (i2c_open dev) f w = f (ret ?r) ?w1"
      by (simp add: seq_def i2c_open_def do_syscall_def)
    from f [of "ret ?r"] have "obeys_at b (ds (ret ?r)) ?w1 (f (ret ?r) ?w1)"
      by (simp add: obeys_def)
    with False s show ?thesis
      by (auto simp add: obeys_at_def split: option.splits)
  qed
qed

lemma main_obeys_at:
  "obeys_at True (program_calls (ret (kernel w (length (trace w)) (SysOpen I2C_DEV))) fuel) w
     (main fuel w)"
proof -
  have tail: "obeys True (concat (replicate fuel (frame_calls fd)))
                (seq (sample_loop fuel fd) (\<lambda>_. seq (close_fd fd) (\<lambda>_. Exit 0)))" for fd
    by (rule obeys_seq_endless) (rule obeys_sample_loop)
  have "obeys_at True
          (SysOpen I2C_DEV #
            (\<lambda>fd. read8_calls fd ADDR_LSM6 REG_WHO_AM_I_LSM6
                 @ read8_calls fd ADDR_LIS3 REG_WHO_AM_I_LIS3
                 @ [] @ []
                 @ write8_calls fd ADDR_LSM6 REG_CTRL1_XL 0x20
                 @ write8_calls fd ADDR_LSM6 REG_CTRL2_G 0x24
                 @ write8_calls fd ADDR_LIS3 REG_CTRL_REG1 0x6C
                 @ write8_calls fd ADDR_LIS3 REG_CTRL_REG2 0x00
                 @ write8_calls fd ADDR_LIS3 REG_CTRL_REG3 0x00
                 @ [] @ [] @ [] @ []
                 @ concat (replicate fuel (frame_calls fd)))
              (ret (kernel w (length (trace w)) (SysOpen I2C_DEV))))
          w (main fuel w)"
    unfolding main_def
    by (rule obeys_at_open_seq) (intro obeys_seq obeys_read8 obeys_write8 obeys_put_cout tail)
  then show ?thesis
    by (simp add: program_calls_def config_calls_def setup_calls_def)
qed

lemma run_obeys:
  "case first_failure os 0 (program_calls (ret (os 0 (SysOpen I2C_DEV))) fuel) of
     None \<Rightarrow>
       \<exists>w. run fuel os = OutOfFuel w \<and> kernel w = os
          \<and> trace w = program_calls (ret (os 0 (SysOpen I2C_DEV))) fuel \<and> cerr w = []
   | Some j \<Rightarrow>
       \<exists>w. run fuel os = Exit 1 w \<and> kernel w = os
          \<and> trace w = take (Suc j) (program_calls (ret (os 0 (SysOpen I2C_DEV))) fuel)
          \<and> cerr w = diagnostic (program_calls (ret (os 0 (SysOpen I2C_DEV))) fuel ! j)
                        (os j (program_calls (ret (os 0 (SysOpen I2C_DEV))) fuel ! j))"
proof -
  let ?cs = "program_calls (ret (os 0 (SysOpen I2C_DEV))) fuel"
  have m: "obeys_at True ?cs (init_world os) (run fuel os)"
    using main_obeys_at [of "init_world os" fuel] by (simp add: run_def init_world_def)
  show ?thesis
  proof (cases "first_failure os 0 ?cs")
    case None
    with m show ?thesis by (simp add: obeys_at_def init_world_def)
  next
    case (Some j)
    with m show ?thesis by (simp add: obeys_at_def init_world_def)
  qed
qed

section \<open>The world after a completed frame and after a run\<close>

lemma obeys_not_OutOfFuel: "obeys False cs p \<Longrightarrow> p w \<noteq> OutOfFuel w'"
  by (auto simp add: obeys_def obeys_at_def split: option.splits dest!: spec [of _ w])

lemma obeys_not_Ret: "obeys True cs p \<Longrightarrow> p w \<noteq> Ret x w'"
  by (auto simp add: obeys_def obeys_at_def split: option.splits dest!: spec [of _ w])

lemma obeys_Exit_status: "obeys b cs p \<Longrightarrow> p w = Exit c w' \<Longrightarrow> c = 1"
  by (auto simp add: obeys_def obeys_at_def split: option.splits if_splits dest!: spec [of _ w])

lemma read16_le_RetD:
  assumes "read16_le fd addr reg w = Ret v w'"
  shows "w' = w\<lparr>trace := trace w @ read16_calls fd addr reg\<rparr>
         \<and> v = word_reply (kernel w) fd (length (trace w))"
  using read16_le_Ret [OF assms] by (simp add: read16_calls_def word_reply_def)

lemma length_read16_calls: "length (read16_calls fd addr reg) = 6"
  by (simp add: read16_calls_def read8_calls_def)

lemma length_frame_calls: "length (frame_calls fd) = 55"
  by (simp add: frame_calls_def length_read16_calls)

lemma loop_body_Ret:
  assumes "loop_body fd w = Ret u w'"
  shows "w' = w\<lparr>trace := trace w @ frame_calls fd,
                 cout := cout w @ frame_text (kernel w) fd (length (trace w))\<rparr>"
  using assms
  by (auto simp add: loop_body_def seq_eq_Ret put_cout_def usleep_def do_syscall_def
      frame_calls_def frame_text_def length_read16_calls add.assoc dest!: read16_le_RetD)

lemma i2c_open_RetD:
  "i2c_open dev w = Ret fd w' \<Longrightarrow>
     fd = ret (kernel w (length (trace w)) (SysOpen dev)) \<and> w' = w\<lparr>trace := trace w @ [SysOpen dev]\<rparr>"
  by (auto simp add: i2c_open_def do_syscall_def Let_def split: if_splits)

lemma read8_RetD:
  assumes "read8 fd addr reg w = Ret v w'"
  shows "w' = w\<lparr>trace := trace w @ read8_calls fd addr reg\<rparr>
         \<and> v = data (kernel w (length (trace w) + 2) (SysRead fd 1))"
  using read8_Ret [OF assms] by simp

lemma frames_text_Suc:
  "concat (map (\<lambda>j. f (k + 55 * j)) [0..<Suc n])
     = f k @ concat (map (\<lambda>j. f (k + 55 + 55 * j)) [0..<n])"
proof -
  have "[0..<Suc n] = 0 # map Suc [0..<n]"
    by (simp add: upt_conv_Cons map_Suc_upt del: upt_Suc)
  then show ?thesis
    by (simp add: comp_def add.assoc del: upt_Suc)
qed

lemma sample_loop_OutOfFuel:
  "sample_loop n fd w = OutOfFuel w' \<Longrightarrow>
     w' = w\<lparr>trace := trace w @ concat (replicate n (frame_calls fd)),
            cout := cout w @ concat (map (\<lambda>j. frame_text (kernel w) fd (length (trace w) + 55 * j)) [0..<n])\<rparr>"
proof (induction n arbitrary: w)
  case 0
  then show ?case by simp
next
  case (Suc n)
  from Suc.prems obtain u w1 where
    b: "loop_body fd w = Ret u w1" and l: "sample_loop n fd w1 = OutOfFuel w'"
    by (auto simp add: seq_eq_OutOfFuel obeys_not_OutOfFuel [OF obeys_loop_body])
  note w1 = loop_body_Ret [OF b]
  from Suc.IH [OF l] show ?case
    unfolding frames_text_Suc by (simp add: w1 length_frame_calls)
qed

lemma run_OutOfFuel:
  assumes "run fuel os = OutOfFuel w"
  shows "w = \<lparr>kernel = os,
              trace = program_calls (ret (os 0 (SysOpen I2C_DEV))) fuel,
              cout = who_text (data (os 3 (SysRead (ret (os 0 (SysOpen I2C_DEV))) 1)))
                       (data (os 6 (SysRead (ret (os 0 (SysOpen I2C_DEV))) 1)))
                     @ header_text
                     @ concat (map (\<lambda>j. frame_text os (ret (os 0 (SysOpen I2C_DEV))) (17 + 55 * j)) [0..<fuel]),
              cerr = []\<rparr>"
  using assms unfolding run_def main_def
  by (auto simp add: seq_eq_OutOfFuel seq_eq_Ret
      obeys_not_OutOfFuel [OF obeys_i2c_open] obeys_not_OutOfFuel [OF obeys_read8]
      obeys_not_OutOfFuel [OF obeys_write8] obeys_not_OutOfFuel [OF obeys_close_fd]
      put_cout_def init_world_def
      program_calls_def config_calls_def setup_calls_def read8_calls_def write8_calls_def
      who_text_def header_text_def numeral_3_eq_3 eval_nat_numeral
      dest!: i2c_open_RetD read8_RetD write8_Ret sample_loop_OutOfFuel)

section \<open>Failures\<close>

lemma succeeds_good_reply: "succeeds c (good_reply b c)"
  by (cases c) simp_all

lemma run_world_cases:
  fixes os fuel
  defines "cs \<equiv> program_calls (ret (os 0 (SysOpen I2C_DEV))) fuel"
  obtains (running) w where "run fuel os = OutOfFuel w" "kernel w = os" "trace w = cs" "cerr w = []"
      "\<forall>i<length cs. succeeds (cs ! i) (os i (cs ! i))"
    | (exits) j w where "run fuel os = Exit 1 w" "kernel w = os" "trace w = take (Suc j) cs"
      "cerr w = diagnostic (cs ! j) (os j (cs ! j))" "j < length cs"
      "\<not> succeeds (cs ! j) (os j (cs ! j))" "\<forall>i<j. succeeds (cs ! i) (os i (cs ! i))"
proof (cases "first_failure os 0 cs")
  case None
  with run_obeys [where os = os and fuel = fuel] obtain w where
    "run fuel os = OutOfFuel w" "kernel w = os" "trace w = cs" "cerr w = []"
    by (auto simp add: cs_def)
  moreover from None have "\<forall>i<length cs. succeeds (cs ! i) (os i (cs ! i))"
    by (simp add: first_failure_None_iff)
  ultimately show ?thesis by (rule running)
next
  case (Some j)
  with run_obeys [where os = os and fuel = fuel] obtain w where
    "run fuel os = Exit 1 w" "kernel w = os" "trace w = take (Suc j) cs"
    "cerr w = diagnostic (cs ! j) (os j (cs ! j))"
    by (auto simp add: cs_def)
  moreover from first_failure_Some [OF Some] have
    "j < length cs" "\<not> succeeds (cs ! j) (os j (cs ! j))" "\<forall>i<j. succeeds (cs ! i) (os i (cs ! i))"
    by simp_all
  ultimately show ?thesis by (rule exits)
qed

lemma diagnostic_ends:
  "\<not> succeeds c r \<Longrightarrow> \<exists>what. diagnostic c r = what @ errstr r @ [CHR 0x0A]"
  by (cases c) auto

text \<open>
  C5: whenever a call issued by a run fails (a negative result of \<open>open\<close> or
  \<open>ioctl\<close>, or a \<open>write\<close> or \<open>read\<close> that transfers another number of bytes than
  asked), that call is the last one the process issues, the process has exited
  with status 1, and the error stream holds exactly the diagnostic of that call,
  which names the operation and ends with the system's error text.
\<close>

theorem failure_is_fatal:
  assumes "w = world_of (run fuel os)"
    and "i < length (trace w)"
    and "\<not> succeeds (trace w ! i) (os i (trace w ! i))"
  shows "run fuel os = Exit 1 w \<and> Suc i = length (trace w)
         \<and> cerr w = diagnostic (trace w ! i) (os i (trace w ! i))
         \<and> (\<exists>what. cerr w = what @ errstr (os i (trace w ! i)) @ [CHR 0x0A])"
proof (cases rule: run_world_cases [of fuel os])
  case (running w')
  with assms show ?thesis by auto
next
  case (exits j w')
  let ?cs = "program_calls (ret (os 0 (SysOpen I2C_DEV))) fuel"
  from exits assms(1) have w: "w = w'" by simp
  from exits have t: "trace w' = take (Suc j) ?cs" "length (trace w') = Suc j"
    by simp_all
  from assms(2) w t have ij: "i \<le> j" by simp
  have "i = j"
  proof (rule ccontr)
    assume "i \<noteq> j"
    with ij have "i < j" by simp
    with exits(7) have "succeeds (?cs ! i) (os i (?cs ! i))" by simp
    moreover from \<open>i < j\<close> t have "trace w ! i = ?cs ! i" by (simp add: w)
    ultimately show False using assms(3) by simp
  qed
  with exits w t have "run fuel os = Exit 1 w \<and> Suc i = length (trace w)
      \<and> cerr w = diagnostic (trace w ! i) (os i (trace w ! i))"
    by simp
  with diagnostic_ends [OF assms(3)] show ?thesis by auto
qed

theorem failure_is_fatal_witness:
  "8 < length (trace (world_of (run 1 (\<lambda>i c. if i = 8 then \<lparr>ret = 1, data = 0, errstr = ''Remote I/O error''\<rparr> else good_reply 0 c))))
   \<and> run 1 (\<lambda>i c. if i = 8 then \<lparr>ret = 1, data = 0, errstr = ''Remote I/O error''\<rparr> else good_reply 0 c)
     = Exit 1 \<lparr>kernel = (\<lambda>i c. if i = 8 then \<lparr>ret = 1, data = 0, errstr = ''Remote I/O error''\<rparr> else good_reply 0 c),
              trace = [SysOpen ''/dev/i2c-1'', SysIoctlSlave 3 0x6B, SysWrite 3 [0x0F], SysRead 3 1,
                       SysIoctlSlave 3 0x1E, SysWrite 3 [0x0F], SysRead 3 1,
                       SysIoctlSlave 3 0x6B, SysWrite 3 [0x10, 0x20]],
              cout = who_text 0 0,
              cerr = ''I2C write(reg,val) failed: Remote I/O error'' @ [CHR 0x0A]\<rparr>"
proof -
  let ?os = "\<lambda>(i::nat) c. if i = 8 then \<lparr>ret = 1, data = 0, errstr = ''Remote I/O error''\<rparr> else good_reply 0 c"
  let ?w = "\<lparr>kernel = ?os,
              trace = [SysOpen ''/dev/i2c-1'', SysIoctlSlave 3 0x6B, SysWrite 3 [0x0F], SysRead 3 1,
                       SysIoctlSlave 3 0x1E, SysWrite 3 [0x0F], SysRead 3 1,
                       SysIoctlSlave 3 0x6B, SysWrite 3 [0x10, 0x20]],
              cout = who_text 0 0,
              cerr = ''I2C write(reg,val) failed: Remote I/O error'' @ [CHR 0x0A]\<rparr>"
  have r: "run 1 ?os = Exit 1 ?w"
    by (simp add: run_def main_def seq_def init_world_def i2c_open_def i2c_set_slave_def read8_def
        write8_def do_syscall_def put_cout_def put_cerr_def who_text_def I2C_DEV_def reg_defs)
  from failure_is_fatal [where w = ?w and fuel = 1 and os = ?os and i = 8] r
  show ?thesis by simp
qed

text \<open>
  C6: when \<open>open\<close> on the bus device node fails, the process exits with status 1
  and \<open>open\<close> is the only call it has issued: no device select, no write, no read.
\<close>

theorem open_failure_stops_at_once:
  assumes "ret (os 0 (SysOpen ''/dev/i2c-1'')) < 0"
  shows "run fuel os =
           Exit 1 \<lparr>kernel = os, trace = [SysOpen ''/dev/i2c-1''], cout = [],
                   cerr = ''Failed to open /dev/i2c-1: '' @ errstr (os 0 (SysOpen ''/dev/i2c-1''))
                          @ [CHR 0x0A]\<rparr>"
  using assms
  by (simp add: run_def main_def seq_def init_world_def i2c_open_def do_syscall_def put_cerr_def
      I2C_DEV_def)

theorem open_failure_stops_at_once_witness:
  "run 3 (\<lambda>i c. \<lparr>ret = - 1, data = 0, errstr = ''No such file or directory''\<rparr>) =
     Exit 1 \<lparr>kernel = (\<lambda>i c. \<lparr>ret = - 1, data = 0, errstr = ''No such file or directory''\<rparr>),
             trace = [SysOpen ''/dev/i2c-1''], cout = [],
             cerr = ''Failed to open /dev/i2c-1: No such file or directory'' @ [CHR 0x0A]\<rparr>"
  using open_failure_stops_at_once
    [where os = "\<lambda>i c. \<lparr>ret = - 1, data = 0, errstr = ''No such file or directory''\<rparr>" and fuel = 3]
  by simp

lemma length_program_calls: "length (program_calls fd fuel) = 17 + 55 * fuel"
  by (simp add: program_calls_def config_calls_def setup_calls_def read8_calls_def
      write8_calls_def length_concat length_frame_calls sum_list_replicate)

text \<open>
  C8: the sample loop never returns, so the \<open>close\<close> and \<open>return 0\<close> that follow it
  are never reached: no run returns from \<open>main\<close>, every exit of the process has
  status 1, and when no call fails the process is still in the loop after any
  number of iterations, having issued the 17 calls of the configuration and 55
  calls for each iteration.
\<close>

theorem sample_loop_never_returns:
  "sample_loop n fd w \<noteq> Ret x w'
   \<and> run fuel os \<noteq> Ret x w'
   \<and> run fuel os \<noteq> Exit 0 w'
   \<and> (run fuel os = Exit c w' \<longrightarrow> c = 1)
   \<and> (never_fails os \<longrightarrow>
        (\<exists>wn. run fuel os = OutOfFuel wn \<and> length (trace wn) = 17 + 55 * fuel))"
proof -
  have a: "sample_loop n fd w \<noteq> Ret x w'"
    by (rule obeys_not_Ret [OF obeys_sample_loop])
  have b: "run fuel os \<noteq> Ret x w'"
    by (cases rule: run_world_cases [of fuel os]) simp_all
  have c: "run fuel os = Exit c w' \<longrightarrow> c = 1" for c
    by (cases rule: run_world_cases [of fuel os]) simp_all
  from c [of 0] have d: "run fuel os \<noteq> Exit 0 w'" by simp
  have e: "never_fails os \<longrightarrow>
       (\<exists>wn. run fuel os = OutOfFuel wn \<and> length (trace wn) = 17 + 55 * fuel)"
  proof
    assume nf: "never_fails os"
    show "\<exists>wn. run fuel os = OutOfFuel wn \<and> length (trace wn) = 17 + 55 * fuel"
    proof (cases rule: run_world_cases [of fuel os])
      case (running wn)
      then show ?thesis by (simp add: length_program_calls)
    next
      case (exits j wn)
      with nf show ?thesis by (simp add: never_fails_def)
    qed
  qed
  from a b c d e show ?thesis by blast
qed

theorem sample_loop_never_returns_witness:
  "\<exists>wn. run 4 (\<lambda>i. good_reply 0) = OutOfFuel wn \<and> length (trace wn) = 237"
  using sample_loop_never_returns [where os = "\<lambda>i. good_reply 0" and fuel = 4]
    never_fails_good_reply [of "\<lambda>i. 0"]
  by simp

section \<open>The configuration phase\<close>

lemma obeys_never_fails:
  assumes "obeys False cs p" and "never_fails (kernel w)"
  shows "\<exists>x w'. p w = Ret x w'"
proof -
  from assms(2) have "first_failure (kernel w) (length (trace w)) cs = None"
    by (simp add: first_failure_None_iff never_fails_def)
  moreover from assms(1) have "obeys_at False cs w (p w)"
    by (simp add: obeys_def)
  ultimately show ?thesis
    by (auto simp add: obeys_at_def)
qed

lemma run_never_fails:
  assumes "never_fails os"
  shows "\<exists>w. run fuel os = OutOfFuel w"
proof (cases rule: run_world_cases [of fuel os])
  case (running w)
  then show ?thesis by blast
next
  case (exits j w)
  with assms show ?thesis by (simp add: never_fails_def)
qed

lemma config_calls_eq:
  "config_calls fd =
     [SysOpen ''/dev/i2c-1'',
      SysIoctlSlave fd 0x6B, SysWrite fd [0x0F], SysRead fd 1,
      SysIoctlSlave fd 0x1E, SysWrite fd [0x0F], SysRead fd 1,
      SysIoctlSlave fd 0x6B, SysWrite fd [0x10, 0x20],
      SysIoctlSlave fd 0x6B, SysWrite fd [0x11, 0x24],
      SysIoctlSlave fd 0x1E, SysWrite fd [0x20, 0x6C],
      SysIoctlSlave fd 0x1E, SysWrite fd [0x21, 0x00],
      SysIoctlSlave fd 0x1E, SysWrite fd [0x22, 0x00]]"
  by (simp add: config_calls_def setup_calls_def read8_calls_def write8_calls_def I2C_DEV_def
      reg_defs)

lemma length_config_calls: "length (config_calls fd) = 17"
  by (simp add: config_calls_eq)

lemma reg_writes_none:
  "(\<And>fd reg val. SysWrite fd [reg, val] \<notin> set cs) \<Longrightarrow> reg_writes cs = []"
proof (induction cs rule: reg_writes.induct)
qed auto

lemma frame_calls_no_reg_write: "SysWrite fd' [reg, val] \<notin> set (frame_calls fd)"
  by (simp add: frame_calls_def read16_calls_def read8_calls_def)

lemma reg_writes_frames:
  "reg_writes (take m (concat (replicate n (frame_calls fd)))) = []"
proof (rule reg_writes_none)
  fix fd' reg val
  have "set (take m (concat (replicate n (frame_calls fd)))) \<subseteq> set (frame_calls fd)"
    using set_take_subset [of m "concat (replicate n (frame_calls fd))"] by auto
  with frame_calls_no_reg_write [of fd' reg val fd]
  show "SysWrite fd' [reg, val] \<notin> set (take m (concat (replicate n (frame_calls fd))))"
    by blast
qed

lemma reg_writes_config:
  "reg_writes (config_calls fd @ cs) =
     [(0x6B, 0x10, 0x20), (0x6B, 0x11, 0x24), (0x1E, 0x20, 0x6C), (0x1E, 0x21, 0x00),
      (0x1E, 0x22, 0x00)] @ reg_writes cs"
  by (simp add: config_calls_eq)

text \<open>
  C2, as amended: the claim's order has six configuration items after the
  identification, three of them for the gyro/accel device; the program issues
  five register writes, two of them to that device. In every run in which none
  of the first 17 calls (the configuration phase) fails, those calls are exactly:
  the \<open>open\<close>; the identification reads of register 0x0F on device 0x6B and then
  on device 0x1E; and five register writes, each after a select of its device:
  0x20 to register 0x10 (accelerometer) and 0x24 to register 0x11 (gyroscope) of
  device 0x6B, then 0x6C to register 0x20, 0x00 to register 0x21 and 0x00 to
  register 0x22 of device 0x1E (magnetometer), in this order. These five are
  all the register writes of the run: the calls after the 17th are an initial
  part of the calls of the sample frames, which write no register.
\<close>

theorem configuration_sequence:
  assumes "w = world_of (run fuel os)"
    and "fd = ret (os 0 (SysOpen ''/dev/i2c-1''))"
    and "\<forall>i<length (trace w). i < 17 \<longrightarrow> succeeds (trace w ! i) (os i (trace w ! i))"
  shows "take 17 (trace w) =
           [SysOpen ''/dev/i2c-1'',
            SysIoctlSlave fd 0x6B, SysWrite fd [0x0F], SysRead fd 1,
            SysIoctlSlave fd 0x1E, SysWrite fd [0x0F], SysRead fd 1,
            SysIoctlSlave fd 0x6B, SysWrite fd [0x10, 0x20],
            SysIoctlSlave fd 0x6B, SysWrite fd [0x11, 0x24],
            SysIoctlSlave fd 0x1E, SysWrite fd [0x20, 0x6C],
            SysIoctlSlave fd 0x1E, SysWrite fd [0x21, 0x00],
            SysIoctlSlave fd 0x1E, SysWrite fd [0x22, 0x00]]
         \<and> reg_writes (trace w) =
             [(0x6B, 0x10, 0x20), (0x6B, 0x11, 0x24),
              (0x1E, 0x20, 0x6C), (0x1E, 0x21, 0x00), (0x1E, 0x22, 0x00)]
         \<and> (\<exists>m. drop 17 (trace w) = take m (concat (replicate fuel (frame_calls fd))))
         \<and> reg_writes (concat (replicate fuel (frame_calls fd))) = []"
proof -
  let ?cs = "program_calls (ret (os 0 (SysOpen I2C_DEV))) fuel"
  let ?fs = "concat (replicate fuel (frame_calls fd))"
  have fd: "ret (os 0 (SysOpen I2C_DEV)) = fd"
    by (simp add: assms(2) I2C_DEV_def)
  have cs: "?cs = config_calls fd @ ?fs"
    by (simp add: program_calls_def fd)
  obtain n where n: "17 \<le> n" and t: "trace w = take n ?cs"
  proof (cases rule: run_world_cases [of fuel os])
    case (running w')
    with assms(1) have "trace w = take (length ?cs) ?cs" by simp
    moreover have "17 \<le> length ?cs" by (simp add: length_program_calls)
    ultimately show ?thesis by (rule that [rotated])
  next
    case (exits j w')
    with assms(1) have t: "trace w = take (Suc j) ?cs" by simp
    have "\<not> j < 17"
    proof
      assume "j < 17"
      moreover from t exits(5) have "j < length (trace w)" "trace w ! j = ?cs ! j"
        by simp_all
      ultimately have "succeeds (?cs ! j) (os j (?cs ! j))"
        using assms(3) by auto
      with exits(6) show False by simp
    qed
    then have "17 \<le> Suc j" by simp
    then show ?thesis using t by (rule that)
  qed
  from n have split: "trace w = config_calls fd @ take (n - 17) ?fs"
    by (simp add: t cs length_config_calls)
  have a: "take 17 (trace w) = config_calls fd"
    by (simp add: split length_config_calls)
  have b: "reg_writes (trace w) =
             [(0x6B, 0x10, 0x20), (0x6B, 0x11, 0x24),
              (0x1E, 0x20, 0x6C), (0x1E, 0x21, 0x00), (0x1E, 0x22, 0x00)]"
    unfolding split reg_writes_config by (simp add: reg_writes_frames)
  have c: "drop 17 (trace w) = take (n - 17) ?fs"
    by (simp add: split length_config_calls)
  have d: "reg_writes ?fs = []"
    using reg_writes_frames [of "length ?fs" fuel fd] by simp
  from a b c d show ?thesis
    unfolding config_calls_eq by blast
qed

theorem configuration_sequence_witness:
  "take 17 (trace (world_of (run 2 good_os))) =
     [SysOpen ''/dev/i2c-1'',
      SysIoctlSlave 3 0x6B, SysWrite 3 [0x0F], SysRead 3 1,
      SysIoctlSlave 3 0x1E, SysWrite 3 [0x0F], SysRead 3 1,
      SysIoctlSlave 3 0x6B, SysWrite 3 [0x10, 0x20],
      SysIoctlSlave 3 0x6B, SysWrite 3 [0x11, 0x24],
      SysIoctlSlave 3 0x1E, SysWrite 3 [0x20, 0x6C],
      SysIoctlSlave 3 0x1E, SysWrite 3 [0x21, 0x00],
      SysIoctlSlave 3 0x1E, SysWrite 3 [0x22, 0x00]]
   \<and> reg_writes (trace (world_of (run 2 good_os))) =
       [(0x6B, 0x10, 0x20), (0x6B, 0x11, 0x24),
        (0x1E, 0x20, 0x6C), (0x1E, 0x21, 0x00), (0x1E, 0x22, 0x00)]"
proof -
  have h: "\<forall>i<length (trace (world_of (run 2 good_os))). i < 17 \<longrightarrow>
      succeeds (trace (world_of (run 2 good_os)) ! i)
        (good_os i (trace (world_of (run 2 good_os)) ! i))"
    by (simp add: good_os_def succeeds_good_reply)
  have f: "3 = ret (good_os 0 (SysOpen ''/dev/i2c-1''))"
    by (simp add: good_os_def)
  from configuration_sequence [OF refl f h] show ?thesis
    by blast
qed

text \<open>
  The claim as worded fails on the run in which every call succeeds: the
  configuration delivers five register writes, not six, and only two of them
  go to the gyro/accel device 0x6B.
\<close>

theorem configuration_order_counterexample:
  "reg_writes (trace (world_of (run 0 good_os))) =
     [(0x6B, 0x10, 0x20), (0x6B, 0x11, 0x24),
      (0x1E, 0x20, 0x6C), (0x1E, 0x21, 0x00), (0x1E, 0x22, 0x00)]
   \<and> length (reg_writes (trace (world_of (run 0 good_os)))) \<noteq> 6"
proof -
  have "never_fails good_os"
    by (simp add: never_fails_def good_os_def succeeds_good_reply)
  from run_never_fails [OF this, of 0]
  obtain w where r: "run 0 good_os = OutOfFuel w" by blast
  have fd: "ret (good_os 0 (SysOpen I2C_DEV)) = 3"
    by (simp add: good_os_def)
  from run_OutOfFuel [OF r] have "trace w = program_calls 3 0"
    by (simp add: fd)
  then have "trace (world_of (run 0 good_os)) = config_calls 3"
    by (simp add: r program_calls_def)
  moreover have "reg_writes (config_calls 3) =
     [(0x6B, 0x10, 0x20), (0x6B, 0x11, 0x24),
      (0x1E, 0x20, 0x6C), (0x1E, 0x21, 0x00), (0x1E, 0x22, 0x00)]"
    using reg_writes_config [of 3 "[]"] by simp
  ultimately show ?thesis by simp
qed

section \<open>The sample loop\<close>

lemma frame_calls_eq:
  "frame_calls fd =
     concat (map (\<lambda>(addr, reg). [SysIoctlSlave fd addr, SysWrite fd [reg], SysRead fd 1]) sample_reads)
     @ [SysUsleep 50000]"
  by (simp add: frame_calls_def read16_calls_def read8_calls_def sample_reads_def reg_defs)

text \<open>
  C3: in a run that has completed \<open>fuel\<close> iterations of the sample loop (and so
  printed \<open>fuel\<close> data lines after the header), the calls after the 17 of the
  configuration are, for each iteration, exactly 18 register reads followed by
  the \<open>usleep\<close>; each register read is the select of the device that holds the
  register, then the write of the register number, then the read of one byte.
\<close>

theorem sample_frame_transactions:
  assumes "run fuel os = OutOfFuel w"
    and "fd = ret (os 0 (SysOpen ''/dev/i2c-1''))"
  shows "trace w =
           config_calls fd
           @ concat (replicate fuel
               (concat (map (\<lambda>(addr, reg). [SysIoctlSlave fd addr, SysWrite fd [reg], SysRead fd 1])
                          sample_reads)
                @ [SysUsleep 50000]))
         \<and> length sample_reads = 18
         \<and> cout w =
             who_text (data (os 3 (SysRead fd 1))) (data (os 6 (SysRead fd 1)))
             @ header_text
             @ concat (map (\<lambda>j. frame_text os fd (17 + 55 * j)) [0..<fuel])"
proof -
  have fd: "ret (os 0 (SysOpen I2C_DEV)) = fd"
    by (simp add: assms(2) I2C_DEV_def)
  note w = run_OutOfFuel [OF assms(1), unfolded fd]
  have "trace w = program_calls fd fuel"
    by (subst w) simp
  moreover have "cout w =
      who_text (data (os 3 (SysRead fd 1))) (data (os 6 (SysRead fd 1)))
      @ header_text
      @ concat (map (\<lambda>j. frame_text os fd (17 + 55 * j)) [0..<fuel])"
    by (subst w) simp
  moreover have "length sample_reads = 18"
    by (simp add: sample_reads_def)
  ultimately show ?thesis
    by (simp add: program_calls_def frame_calls_eq)
qed

theorem sample_frame_transactions_witness:
  "\<exists>w. run 2 (\<lambda>i. good_reply 0) = OutOfFuel w
      \<and> trace w =
           config_calls 3
           @ concat (replicate 2
               (concat (map (\<lambda>(addr, reg). [SysIoctlSlave 3 addr, SysWrite 3 [reg], SysRead 3 1])
                          sample_reads)
                @ [SysUsleep 50000]))"
proof -
  from run_never_fails [OF never_fails_good_reply [of "\<lambda>i. 0"], of 2]
  obtain w where r: "run 2 (\<lambda>i. good_reply 0) = OutOfFuel w" by blast
  from sample_frame_transactions [OF r, of 3] r show ?thesis by simp
qed

text \<open>
  C4: an iteration of the sample loop that completes reads nine words, each as
  a low register and then the register after it: the X, Y and Z words at the
  angular-rate output registers of the gyro/accel device, then the X, Y and Z
  words at its linear-acceleration output registers, then the X, Y and Z words
  at the output registers of the magnetometer; and it prints these nine words
  in that order.
\<close>

theorem frame_read_order:
  assumes "loop_body fd w = Ret u w'"
  shows "trace w' =
           trace w
           @ read16_calls fd ADDR_LSM6 REG_OUTX_L_G
           @ read16_calls fd ADDR_LSM6 (REG_OUTX_L_G + 2)
           @ read16_calls fd ADDR_LSM6 (REG_OUTX_L_G + 4)
           @ read16_calls fd ADDR_LSM6 REG_OUTX_L_XL
           @ read16_calls fd ADDR_LSM6 (REG_OUTX_L_XL + 2)
           @ read16_calls fd ADDR_LSM6 (REG_OUTX_L_XL + 4)
           @ read16_calls fd ADDR_LIS3 REG_OUT_X_L
           @ read16_calls fd ADDR_LIS3 (REG_OUT_X_L + 2)
           @ read16_calls fd ADDR_LIS3 (REG_OUT_X_L + 4)
           @ [SysUsleep 50000]
         \<and> (\<forall>addr reg. read16_calls fd addr reg =
               [SysIoctlSlave fd addr, SysWrite fd [reg], SysRead fd 1,
                SysIoctlSlave fd addr, SysWrite fd [reg + 1], SysRead fd 1])
         \<and> cout w' =
             cout w
             @ frame_line
                 (word_reply (kernel w) fd (length (trace w)))
                 (word_reply (kernel w) fd (length (trace w) + 6))
                 (word_reply (kernel w) fd (length (trace w) + 12))
                 (word_reply (kernel w) fd (length (trace w) + 18))
                 (word_reply (kernel w) fd (length (trace w) + 24))
                 (word_reply (kernel w) fd (length (trace w) + 30))
                 (word_reply (kernel w) fd (length (trace w) + 36))
                 (word_reply (kernel w) fd (length (trace w) + 42))
                 (word_reply (kernel w) fd (length (trace w) + 48))"
proof -
  note w' = loop_body_Ret [OF assms]
  have "trace w' = trace w @ frame_calls fd"
    by (subst w') simp
  moreover have "cout w' = cout w @ frame_text (kernel w) fd (length (trace w))"
    by (subst w') simp
  ultimately show ?thesis
    by (simp add: frame_calls_def frame_text_def read16_calls_def read8_calls_def)
qed

theorem frame_read_order_witness:
  "\<exists>u w'. loop_body 3 (init_world (\<lambda>i. good_reply 0xFF)) = Ret u w'
      \<and> length (trace w') = 55
      \<and> cout w' = ''    -1     -1     -1 |     -1     -1     -1 |     -1     -1     -1'' @ [CHR 0x0D]"
proof -
  have nf: "never_fails (kernel (init_world (\<lambda>i. good_reply 0xFF)))"
    using never_fails_good_reply [of "\<lambda>i. 0xFF"] by (simp add: init_world_def)
  from obeys_never_fails [OF obeys_loop_body nf, of 3]
  obtain u w' where r: "loop_body 3 (init_world (\<lambda>i. good_reply 0xFF)) = Ret u w'" by blast
  have v: "word_reply (\<lambda>i. good_reply 0xFF) 3 k = - 1" for k
    by (simp add: word_reply_def)
  have s: "show_dec (- 1) = ''-1''"
    by (simp add: show_dec_def digits_of.simps digit_char_def)
  note f = frame_read_order [OF r]
  from f have "length (trace w') = 55"
    by (simp add: init_world_def)
  moreover from f have "cout w' =
      ''    -1     -1     -1 |     -1     -1     -1 |     -1     -1     -1'' @ [CHR 0x0D]"
    by (simp add: init_world_def v frame_line_def s setw_def eval_nat_numeral)
  ultimately show ?thesis
    using r by blast
qed

section \<open>Register arithmetic\<close>

lemma unat_u8_mod: "unat (x :: u8) mod 256 = unat x"
proof -
  have "unat x < 2 ^ LENGTH(8)" by (rule unsigned_less)
  then show ?thesis by simp
qed

lemma reg_bytes_frame_calls:
  "reg_bytes (frame_calls fd) =
     [REG_OUTX_L_G, REG_OUTX_L_G + 1, REG_OUTX_L_G + 2, REG_OUTX_L_G + 2 + 1,
      REG_OUTX_L_G + 4, REG_OUTX_L_G + 4 + 1,
      REG_OUTX_L_XL, REG_OUTX_L_XL + 1, REG_OUTX_L_XL + 2, REG_OUTX_L_XL + 2 + 1,
      REG_OUTX_L_XL + 4, REG_OUTX_L_XL + 4 + 1,
      REG_OUT_X_L, REG_OUT_X_L + 1, REG_OUT_X_L + 2, REG_OUT_X_L + 2 + 1,
      REG_OUT_X_L + 4, REG_OUT_X_L + 4 + 1]"
  by (simp add: frame_calls_def read16_calls_def read8_calls_def)

text \<open>
  C9: \<open>read16_le\<close> reads its high byte from register \<open>reg_l + 1\<close> computed in
  8 bits, that is from register \<open>(reg_l + 1) mod 256\<close>: for \<open>reg_l = 0xFF\<close> the
  second read is of register 0x00, and the routine returns when no call fails.
  The registers that an iteration of the sample loop reads are the three base
  registers plus the offsets 0 to 5, computed modulo 256 in the same way.
\<close>

theorem high_register_wraps:
  "(read16_le fd addr reg_l w = Ret v w' \<longrightarrow>
      trace w' = trace w @ [SysIoctlSlave fd addr, SysWrite fd [reg_l], SysRead fd 1,
                            SysIoctlSlave fd addr, SysWrite fd [reg_l + 1], SysRead fd 1])
   \<and> unat (reg_l + 1) = (unat reg_l + 1) mod 256
   \<and> (never_fails (kernel w) \<longrightarrow>
        (\<exists>v1 w1. read16_le fd addr 0xFF w = Ret v1 w1
            \<and> reg_bytes (drop (length (trace w)) (trace w1)) = [0xFF, 0x00]))
   \<and> (loop_body fd w = Ret u w2 \<longrightarrow>
        map unat (reg_bytes (drop (length (trace w)) (trace w2))) =
          map (\<lambda>k. (unat REG_OUTX_L_G + k) mod 256) [0..<6]
          @ map (\<lambda>k. (unat REG_OUTX_L_XL + k) mod 256) [0..<6]
          @ map (\<lambda>k. (unat REG_OUT_X_L + k) mod 256) [0..<6])"
proof -
  have a: "read16_le fd addr reg_l w = Ret v w' \<longrightarrow>
      trace w' = trace w @ [SysIoctlSlave fd addr, SysWrite fd [reg_l], SysRead fd 1,
                            SysIoctlSlave fd addr, SysWrite fd [reg_l + 1], SysRead fd 1]"
  proof
    assume r: "read16_le fd addr reg_l w = Ret v w'"
    from read16_le_RetD [OF r] have "trace w' = trace w @ read16_calls fd addr reg_l"
      by simp
    then show "trace w' = trace w @ [SysIoctlSlave fd addr, SysWrite fd [reg_l], SysRead fd 1,
                            SysIoctlSlave fd addr, SysWrite fd [reg_l + 1], SysRead fd 1]"
      by (simp add: read16_calls_def read8_calls_def)
  qed
  have b: "unat (reg_l + 1) = (unat reg_l + 1) mod 256"
    by (simp add: unat_word_ariths)
  have c: "never_fails (kernel w) \<longrightarrow>
        (\<exists>v1 w1. read16_le fd addr 0xFF w = Ret v1 w1
            \<and> reg_bytes (drop (length (trace w)) (trace w1)) = [0xFF, 0x00])"
  proof
    assume "never_fails (kernel w)"
    from obeys_never_fails [OF obeys_read16_le this]
    obtain v1 w1 where r: "read16_le fd addr 0xFF w = Ret v1 w1" by blast
    from read16_le_RetD [OF r] have "trace w1 = trace w @ read16_calls fd addr 0xFF"
      by simp
    then have "reg_bytes (drop (length (trace w)) (trace w1)) = [0xFF, 0x00]"
      by (simp add: read16_calls_def read8_calls_def)
    with r show "\<exists>v1 w1. read16_le fd addr 0xFF w = Ret v1 w1
            \<and> reg_bytes (drop (length (trace w)) (trace w1)) = [0xFF, 0x00]"
      by blast
  qed
  have d: "loop_body fd w = Ret u w2 \<longrightarrow>
        map unat (reg_bytes (drop (length (trace w)) (trace w2))) =
          map (\<lambda>k. (unat REG_OUTX_L_G + k) mod 256) [0..<6]
          @ map (\<lambda>k. (unat REG_OUTX_L_XL + k) mod 256) [0..<6]
          @ map (\<lambda>k. (unat REG_OUT_X_L + k) mod 256) [0..<6]"
  proof
    assume r: "loop_body fd w = Ret u w2"
    have "trace w2 = trace w @ frame_calls fd"
      by (subst loop_body_Ret [OF r]) simp
    then have "reg_bytes (drop (length (trace w)) (trace w2)) = reg_bytes (frame_calls fd)"
      by simp
    moreover have "[0..<6] = [0, 1, 2, 3, 4, 5]"
      by (simp add: eval_nat_numeral)
    ultimately show "map unat (reg_bytes (drop (length (trace w)) (trace w2))) =
          map (\<lambda>k. (unat REG_OUTX_L_G + k) mod 256) [0..<6]
          @ map (\<lambda>k. (unat REG_OUTX_L_XL + k) mod 256) [0..<6]
          @ map (\<lambda>k. (unat REG_OUT_X_L + k) mod 256) [0..<6]"
      by (simp add: reg_bytes_frame_calls unat_word_ariths mod_simps add.assoc unat_u8_mod)
  qed
  from a b c d show ?thesis by blast
qed

theorem high_register_wraps_witness:
  "\<exists>v1 w1. read16_le 3 0x6B 0xFF (init_world (\<lambda>i. good_reply 0)) = Ret v1 w1
      \<and> reg_bytes (trace w1) = [0xFF, 0x00]"
  using high_register_wraps [where w = "init_world (\<lambda>i. good_reply 0)" and fd = 3 and addr = "0x6B"]
    never_fails_good_reply [of "\<lambda>i. 0"]
  by (simp add: init_world_def)

section \<open>Determinism\<close>

lemma steady_Ret: "steady (Ret x)"
  by (simp add: steady_def extends_def same_result_def)

lemma steady_Exit: "steady (Exit c)"
  by (simp add: steady_def extends_def same_result_def)

lemma steady_OutOfFuel: "steady OutOfFuel"
  by (simp add: steady_def extends_def same_result_def)

lemma steady_put_cout: "steady (put_cout s)"
  by (simp add: steady_def extends_def same_result_def put_cout_def same_io_def)

lemma steady_fail: "steady (fail msg)"
  by (simp add: steady_def extends_def same_result_def fail_def put_cerr_def same_io_def)

lemma steady_call: "steady (call c)"
proof -
  have "kernel w2 (length (trace w2)) c = kernel w1 (length (trace w1)) c"
    if "same_io w1 w2"
      and "agrees (kernel w1) (kernel w2) (length (trace w1)) (trace w1 @ [c])" for w1 w2
    using that(2) [unfolded agrees_def, rule_format, of "length (trace w1)"] that(1)
    by (simp add: same_io_def)
  then show ?thesis
    by (auto simp add: steady_def extends_def same_result_def call_def do_syscall_def same_io_def)
qed

lemma steady_if: "steady p \<Longrightarrow> steady q \<Longrightarrow> steady (if b then p else q)"
  by simp

lemma agrees_prefix: "agrees k1 k2 n (tr @ cs) \<Longrightarrow> agrees k1 k2 n tr"
  by (auto simp add: agrees_def nth_append)

lemma agrees_from: "agrees k1 k2 n tr \<Longrightarrow> n \<le> m \<Longrightarrow> agrees k1 k2 m tr"
  by (auto simp add: agrees_def)

lemma extendsD:
  "extends p \<Longrightarrow>
     kernel (world_of (p w)) = kernel w \<and> (\<exists>cs. trace (world_of (p w)) = trace w @ cs)
     \<and> (\<exists>s. cout (world_of (p w)) = cout w @ s)"
  by (simp add: extends_def)

lemma steady_extends: "steady p \<Longrightarrow> extends p"
  by (simp add: steady_def)

lemma steadyD:
  "steady p \<Longrightarrow> same_io w1 w2 \<Longrightarrow>
     agrees (kernel w1) (kernel w2) (length (trace w1)) (trace (world_of (p w1))) \<Longrightarrow>
     same_result (p w1) (p w2)"
  by (simp add: steady_def)

lemma extends_seq:
  assumes m: "extends m" and f: "\<And>x. extends (f x)"
  shows "extends (seq m f)"
  unfolding extends_def
proof
  fix w :: world
  from extendsD [OF m, of w] obtain cs s where
    a: "kernel (world_of (m w)) = kernel w" "trace (world_of (m w)) = trace w @ cs"
      "cout (world_of (m w)) = cout w @ s"
    by blast
  show "kernel (world_of (seq m f w)) = kernel w
        \<and> (\<exists>cs. trace (world_of (seq m f w)) = trace w @ cs)
        \<and> (\<exists>s. cout (world_of (seq m f w)) = cout w @ s)"
  proof (cases "m w")
    case (Ret x w')
    from extendsD [OF f, of x w'] obtain ds t where
      "kernel (world_of (f x w')) = kernel w'" "trace (world_of (f x w')) = trace w' @ ds"
      "cout (world_of (f x w')) = cout w' @ t"
      by blast
    with a Ret show ?thesis by (simp add: seq_def)
  next
    case (Exit c w')
    with a show ?thesis by (simp add: seq_def)
  next
    case (OutOfFuel w')
    with a show ?thesis by (simp add: seq_def)
  qed
qed

lemma steady_seq:
  assumes m: "steady m" and f: "\<And>x. steady (f x)"
  shows "steady (seq m f)"
  unfolding steady_def
proof (intro conjI allI impI)
  show "extends (seq m f)"
    by (intro extends_seq steady_extends m f)
next
  fix w1 w2 :: world
  assume h: "same_io w1 w2 \<and>
    agrees (kernel w1) (kernel w2) (length (trace w1)) (trace (world_of (seq m f w1)))"
  note em = steady_extends [OF m]
  show "same_result (seq m f w1) (seq m f w2)"
  proof (cases "m w1")
    case (Ret x w1')
    note ef = steady_extends [OF f, of x]
    from extendsD [OF em, of w1] Ret obtain cs where
      k1: "kernel w1' = kernel w1" and t1: "trace w1' = trace w1 @ cs"
      by auto
    from extendsD [OF ef, of w1'] obtain ds where
      t2: "trace (world_of (f x w1')) = trace w1' @ ds"
      by blast
    from h Ret have ag: "agrees (kernel w1) (kernel w2) (length (trace w1)) (trace w1' @ ds)"
      by (simp add: seq_def t2)
    from agrees_prefix [OF ag] Ret
    have "agrees (kernel w1) (kernel w2) (length (trace w1)) (trace (world_of (m w1)))"
      by simp
    from steadyD [OF m _ this] h Ret
    obtain w2' where r2: "m w2 = Ret x w2'" and io: "same_io w1' w2'"
      by (auto simp add: same_result_def)
    from extendsD [OF em, of w2] r2 have k2: "kernel w2' = kernel w2"
      by simp
    from agrees_from [OF ag, of "length (trace w1')"] t1
    have "agrees (kernel w1') (kernel w2') (length (trace w1')) (trace (world_of (f x w1')))"
      by (simp add: k1 k2 t2)
    from steadyD [OF f io this] Ret r2 show ?thesis
      by (simp add: seq_def)
  next
    case (Exit c w1')
    with steadyD [OF m, of w1 w2] h show ?thesis
      by (auto simp add: seq_def same_result_def)
  next
    case (OutOfFuel w1')
    with steadyD [OF m, of w1 w2] h show ?thesis
      by (auto simp add: seq_def same_result_def)
  qed
qed

lemma i2c_open_form:
  "i2c_open dev =
     seq (call (SysOpen dev)) (\<lambda>r.
       if ret r < 0 then fail (''Failed to open '' @ dev @ '': '' @ errstr r @ [CHR 0x0A])
       else Ret (ret r))"
  by (rule ext) (simp add: i2c_open_def seq_def call_def fail_def do_syscall_def)

lemma i2c_set_slave_form:
  "i2c_set_slave fd addr =
     seq (call (SysIoctlSlave fd addr)) (\<lambda>r.
       if ret r < 0
       then fail (''Failed to set I2C slave 0x'' @ show_hex addr @ '': '' @ errstr r @ [CHR 0x0A])
       else Ret ())"
  by (rule ext) (simp add: i2c_set_slave_def seq_def call_def fail_def do_syscall_def)

lemma read8_form:
  "read8 fd addr reg =
     seq (i2c_set_slave fd addr) (\<lambda>_.
     seq (call (SysWrite fd [reg])) (\<lambda>r.
       if ret r \<noteq> 1 then fail (''I2C write(reg) failed: '' @ errstr r @ [CHR 0x0A])
       else seq (call (SysRead fd 1)) (\<lambda>r'.
         if ret r' \<noteq> 1 then fail (''I2C read failed: '' @ errstr r' @ [CHR 0x0A])
         else Ret (data r'))))"
  by (simp add: read8_def seq_def call_def fail_def do_syscall_def fun_eq_iff split: result.splits)

lemma write8_form:
  "write8 fd addr reg val =
     seq (i2c_set_slave fd addr) (\<lambda>_.
     seq (call (SysWrite fd [reg, val])) (\<lambda>r.
       if ret r \<noteq> 2 then fail (''I2C write(reg,val) failed: '' @ errstr r @ [CHR 0x0A])
       else Ret ()))"
  by (simp add: write8_def seq_def call_def fail_def do_syscall_def fun_eq_iff split: result.splits)

lemma usleep_form: "usleep us = seq (call (SysUsleep us)) (\<lambda>_. Ret ())"
  by (rule ext) (simp add: usleep_def seq_def call_def)

lemma close_fd_form: "close_fd fd = seq (call (SysClose fd)) (\<lambda>_. Ret ())"
  by (rule ext) (simp add: close_fd_def seq_def call_def)

lemma steady_i2c_open: "steady (i2c_open dev)"
  unfolding i2c_open_form by (intro steady_seq steady_call steady_if steady_fail steady_Ret)

lemma steady_i2c_set_slave: "steady (i2c_set_slave fd addr)"
  unfolding i2c_set_slave_form by (intro steady_seq steady_call steady_if steady_fail steady_Ret)

lemma steady_read8: "steady (read8 fd addr reg)"
  unfolding read8_form
  by (intro steady_seq steady_i2c_set_slave steady_call steady_if steady_fail steady_Ret)

lemma steady_write8: "steady (write8 fd addr reg val)"
  unfolding write8_form
  by (intro steady_seq steady_i2c_set_slave steady_call steady_if steady_fail steady_Ret)

lemma steady_usleep: "steady (usleep us)"
  unfolding usleep_form by (intro steady_seq steady_call steady_Ret)

lemma steady_close_fd: "steady (close_fd fd)"
  unfolding close_fd_form by (intro steady_seq steady_call steady_Ret)

lemma steady_read16_le: "steady (read16_le fd addr reg_l)"
  unfolding read16_le_def by (intro steady_seq steady_read8 steady_Ret)

lemma steady_loop_body: "steady (loop_body fd)"
  unfolding loop_body_def by (intro steady_seq steady_read16_le steady_put_cout steady_usleep)

lemma steady_sample_loop: "steady (sample_loop n fd)"
proof (induction n)
  case 0
  show ?case by (simp add: steady_OutOfFuel)
next
  case (Suc n)
  have "steady (seq (loop_body fd) (\<lambda>_. sample_loop n fd))"
    by (intro steady_seq steady_loop_body Suc.IH)
  then show ?case by simp
qed

lemma steady_main: "steady (main fuel)"
  unfolding main_def
  by (intro steady_seq steady_i2c_open steady_read8 steady_write8 steady_put_cout
      steady_sample_loop steady_close_fd steady_Exit)

text \<open>
  C10: the program is deterministic. If a second operating system gives, to
  every call that a run issues, the reply that the call got in that run, then the
  run against the second system issues the same calls, prints the same text on
  both streams and ends with the same status, whatever the second system would
  have answered to any other call.
\<close>

theorem run_deterministic:
  assumes "\<forall>i<length (trace (world_of (run fuel os1))).
             os2 i (trace (world_of (run fuel os1)) ! i) = os1 i (trace (world_of (run fuel os1)) ! i)"
  shows "trace (world_of (run fuel os2)) = trace (world_of (run fuel os1))
         \<and> cout (world_of (run fuel os2)) = cout (world_of (run fuel os1))
         \<and> cerr (world_of (run fuel os2)) = cerr (world_of (run fuel os1))
         \<and> exit_status (run fuel os2) = exit_status (run fuel os1)"
proof -
  have io: "same_io (init_world os1) (init_world os2)"
    by (simp add: same_io_def init_world_def)
  have ag: "agrees (kernel (init_world os1)) (kernel (init_world os2))
              (length (trace (init_world os1))) (trace (world_of (main fuel (init_world os1))))"
    using assms by (simp add: agrees_def init_world_def run_def)
  from steadyD [OF steady_main io ag]
  have "same_result (run fuel os1) (run fuel os2)"
    by (simp add: run_def)
  then show ?thesis
    by (cases "run fuel os1") (auto simp add: same_result_def same_io_def)
qed

theorem run_deterministic_witness:
  "trace (world_of (run 1 (\<lambda>i c. if i < 72 then good_reply 7 c else \<lparr>ret = - 1, data = 0, errstr = ''I/O error''\<rparr>)))
     = trace (world_of (run 1 (\<lambda>i. good_reply 7)))
   \<and> cout (world_of (run 1 (\<lambda>i c. if i < 72 then good_reply 7 c else \<lparr>ret = - 1, data = 0, errstr = ''I/O error''\<rparr>)))
     = cout (world_of (run 1 (\<lambda>i. good_reply 7)))
   \<and> exit_status (run 1 (\<lambda>i c. if i < 72 then good_reply 7 c else \<lparr>ret = - 1, data = 0, errstr = ''I/O error''\<rparr>))
     = exit_status (run 1 (\<lambda>i. good_reply 7))"
proof -
  let ?os1 = "\<lambda>i::nat. good_reply 7"
  let ?os2 = "\<lambda>(i::nat) c. if i < 72 then good_reply 7 c else \<lparr>ret = - 1, data = 0, errstr = ''I/O error''\<rparr>"
  have "length (trace (world_of (run 1 ?os1))) = 72"
  proof (cases rule: run_world_cases [of 1 ?os1])
    case (running w)
    then show ?thesis by (simp add: length_program_calls)
  next
    case (exits j w)
    then show ?thesis by (simp add: succeeds_good_reply)
  qed
  then have "\<forall>i<length (trace (world_of (run 1 ?os1))).
      ?os2 i (trace (world_of (run 1 ?os1)) ! i) = ?os1 i (trace (world_of (run 1 ?os1)) ! i)"
    by simp
  from run_deterministic [where ?os1.0 = ?os1 and ?os2.0 = ?os2 and fuel = 1, OF this]
  show ?thesis by simp
qed

section \<open>The identification bytes\<close>










end
